theory Spec2Isabelle
  imports Complex_Main
begin

section \<open>Python values\<close>

text \<open>
  Documents are untyped trees as a JSON/BSON decoder produces them. A dict is an
  association list in insertion order with string keys; a float is the rational
  it denotes (NaN and the infinities are left out); a datetime is its number of
  whole seconds and its microsecond part. Values are trees: sharing between a
  document, a patch and a field's configured values is not modelled, every
  in-place mutation of the source returns the updated value.
\<close>

datatype pyval =
    VNone
  | VBool bool
  | VInt int
  | VFloat rat
  | VStr string
  | VDateTime int int
  | VList "pyval list"
  | VDict "(string \<times> pyval) list"

datatype pyerror =
    TypeError
  | AttributeError
  | KeyError
  | ValueError
  | ZeroDivisionError
  | DictFieldError

datatype pytype = TStr | TInt | TFloat | TBool | TList | TDict | TDateTime

text \<open>\<open>isinstance(v, t)\<close>; \<open>bool\<close> is a subclass of \<open>int\<close>.\<close>

fun isinstance1 :: "pyval \<Rightarrow> pytype \<Rightarrow> bool" where
  "isinstance1 (VStr _) TStr = True"
| "isinstance1 (VInt _) TInt = True"
| "isinstance1 (VBool _) TInt = True"
| "isinstance1 (VBool _) TBool = True"
| "isinstance1 (VFloat _) TFloat = True"
| "isinstance1 (VList _) TList = True"
| "isinstance1 (VDict _) TDict = True"
| "isinstance1 (VDateTime _ _) TDateTime = True"
| "isinstance1 _ _ = False"

definition isinstance :: "pyval \<Rightarrow> pytype list \<Rightarrow> bool" where
  "isinstance v ts = list_ex (isinstance1 v) ts"

text \<open>The number a value denotes in a comparison, if it is a number.\<close>

fun num_of :: "pyval \<Rightarrow> rat option" where
  "num_of (VBool b) = Some (if b then 1 else 0)"
| "num_of (VInt i) = Some (of_int i)"
| "num_of (VFloat r) = Some r"
| "num_of _ = None"

text \<open>\<open>a < b\<close> and \<open>a > b\<close> against a numeric bound: a TypeError unless \<open>a\<close> is a number.\<close>

definition py_lt_num :: "pyval \<Rightarrow> rat \<Rightarrow> pyerror + bool" where
  "py_lt_num v b = (case num_of v of None \<Rightarrow> Inl TypeError | Some x \<Rightarrow> Inr (x < b))"

definition py_gt_num :: "pyval \<Rightarrow> rat \<Rightarrow> pyerror + bool" where
  "py_gt_num v b = (case num_of v of None \<Rightarrow> Inl TypeError | Some x \<Rightarrow> Inr (x > b))"

text \<open>Truthiness, as \<open>if v\<close> and \<open>a or b\<close> use it.\<close>

fun truthy :: "pyval \<Rightarrow> bool" where
  "truthy VNone = False"
| "truthy (VBool b) = b"
| "truthy (VInt i) = (i \<noteq> 0)"
| "truthy (VFloat r) = (r \<noteq> 0)"
| "truthy (VStr s) = (s \<noteq> [])"
| "truthy (VDateTime _ _) = True"
| "truthy (VList xs) = (xs \<noteq> [])"
| "truthy (VDict d) = (d \<noteq> [])"

definition py_or :: "pyval \<Rightarrow> pyval \<Rightarrow> pyval" where
  "py_or a b = (if truthy a then a else b)"

text \<open>
  \<open>a == b\<close>: numbers compare by value across bool, int and float, lists
  elementwise, dicts as unordered mappings.
\<close>

lemma size_zip_left [termination_simp]:
  "(a, b) \<in> set (zip xs ys) \<Longrightarrow> size a < Suc (size_list size xs)"
  by (auto dest!: set_zip_leftD simp: less_Suc_eq_le size_list_estimation')

fun py_eq :: "pyval \<Rightarrow> pyval \<Rightarrow> bool" where
  "py_eq (VList xs) (VList ys) =
     (length xs = length ys \<and> list_all (\<lambda>(x, y). py_eq x y) (zip xs ys))"
| "py_eq (VDict a) (VDict b) =
     (length a = length b \<and>
      list_all (\<lambda>(k, v). case map_of b k of None \<Rightarrow> False | Some w \<Rightarrow> py_eq v w) a)"
| "py_eq (VStr s) (VStr t) = (s = t)"
| "py_eq (VDateTime s u) (VDateTime t w) = (s = t \<and> u = w)"
| "py_eq VNone VNone = True"
| "py_eq a b =
     (case (num_of a, num_of b) of (Some x, Some y) \<Rightarrow> x = y | _ \<Rightarrow> False)"

fun hashable :: "pyval \<Rightarrow> bool" where
  "hashable (VList _) = False"
| "hashable (VDict _) = False"
| "hashable _ = True"

subsection \<open>Dict and container operations\<close>

definition dict_get :: "(string \<times> pyval) list \<Rightarrow> string \<Rightarrow> pyval" where
  "dict_get d k = (case map_of d k of None \<Rightarrow> VNone | Some v \<Rightarrow> v)"

text \<open>\<open>d[k] = v\<close>: an existing key keeps its position, a new key goes last.\<close>

fun dict_set :: "(string \<times> pyval) list \<Rightarrow> string \<Rightarrow> pyval \<Rightarrow> (string \<times> pyval) list" where
  "dict_set [] k v = [(k, v)]"
| "dict_set ((k', v') # d) k v =
     (if k' = k then (k, v) # d else (k', v') # dict_set d k v)"

definition dict_keys :: "(string \<times> pyval) list \<Rightarrow> string list" where
  "dict_keys d = map fst d"

text \<open>\<open>document.get(key)\<close>: only a dict has the method.\<close>

fun py_get :: "pyval \<Rightarrow> string \<Rightarrow> pyerror + pyval" where
  "py_get (VDict d) k = Inr (dict_get d k)"
| "py_get _ k = Inl AttributeError"

text \<open>\<open>document[key]\<close> with a string key.\<close>

fun py_getitem :: "pyval \<Rightarrow> string \<Rightarrow> pyerror + pyval" where
  "py_getitem (VDict d) k = (case map_of d k of None \<Rightarrow> Inl KeyError | Some v \<Rightarrow> Inr v)"
| "py_getitem _ k = Inl TypeError"

text \<open>\<open>document[key] = v\<close> with a string key.\<close>

fun py_setitem :: "pyval \<Rightarrow> string \<Rightarrow> pyval \<Rightarrow> pyerror + pyval" where
  "py_setitem (VDict d) k v = Inr (VDict (dict_set d k v))"
| "py_setitem _ k v = Inl TypeError"

fun is_substring :: "string \<Rightarrow> string \<Rightarrow> bool" where
  "is_substring k [] = (k = [])"
| "is_substring k (c # s) = (take (length k) (c # s) = k \<or> is_substring k s)"

text \<open>
  \<open>key in document\<close> with a string key: key membership for a dict, substring
  for a string, element membership for a list, a TypeError otherwise.
\<close>

fun py_contains :: "pyval \<Rightarrow> string \<Rightarrow> pyerror + bool" where
  "py_contains (VDict d) k = Inr (k \<in> set (dict_keys d))"
| "py_contains (VStr s) k = Inr (is_substring k s)"
| "py_contains (VList xs) k = Inr (list_ex (\<lambda>x. x = VStr k) xs)"
| "py_contains _ k = Inl TypeError"


subsection \<open>Exceptions as values\<close>

definition bind_err :: "pyerror + 'a \<Rightarrow> ('a \<Rightarrow> pyerror + 'b) \<Rightarrow> pyerror + 'b" where
  "bind_err m f = (case m of Inl e \<Rightarrow> Inl e | Inr x \<Rightarrow> f x)"

fun fold_err :: "('a \<Rightarrow> 's \<Rightarrow> pyerror + 's) \<Rightarrow> 'a list \<Rightarrow> 's \<Rightarrow> pyerror + 's" where
  "fold_err f [] s = Inr s"
| "fold_err f (x # xs) s = (case f x s of Inl e \<Rightarrow> Inl e | Inr s' \<Rightarrow> fold_err f xs s')"

fun map_err :: "('a \<Rightarrow> pyerror + 'b) \<Rightarrow> 'a list \<Rightarrow> pyerror + 'b list" where
  "map_err f [] = Inr []"
| "map_err f (x # xs) =
     (case f x of Inl e \<Rightarrow> Inl e
      | Inr y \<Rightarrow> (case map_err f xs of Inl e \<Rightarrow> Inl e | Inr ys \<Rightarrow> Inr (y # ys)))"

lemma bind_err_cong [fundef_cong]:
  "m = m' \<Longrightarrow> (\<And>x. m' = Inr x \<Longrightarrow> f x = f' x) \<Longrightarrow> bind_err m f = bind_err m' f'"
  by (auto simp: bind_err_def split: sum.splits)

lemma fold_err_cong [fundef_cong]:
  "xs = ys \<Longrightarrow> s = t \<Longrightarrow> (\<And>x u. x \<in> set ys \<Longrightarrow> f x u = g x u)
   \<Longrightarrow> fold_err f xs s = fold_err g ys t"
  by (induction ys arbitrary: xs s t) (auto split: sum.splits)

lemma map_err_cong [fundef_cong]:
  "xs = ys \<Longrightarrow> (\<And>x. x \<in> set ys \<Longrightarrow> f x = g x) \<Longrightarrow> map_err f xs = map_err g ys"
  by (induction ys arbitrary: xs) (auto split: sum.splits)

section \<open>Fields\<close>

text \<open>
  \<open>choices\<close> is unset, a set, a list or a dict; \<open>default\<close> is a value or a
  callable, and a callable is the value it returns (the claims speak of stable
  defaults only). \<open>fixed_value\<close> and a value \<open>default\<close> use \<open>VNone\<close> for unset,
  as the source uses \<open>None\<close>.
\<close>

datatype choices =
    NoChoices
  | ChoiceSet "pyval list"
  | ChoiceList "pyval list"
  | ChoiceDict "(pyval \<times> pyval) list"

datatype dflt = DefaultValue pyval | DefaultCallable pyval

record base =
  is_required :: bool
  choices :: choices
  default_v :: dflt
  dict_key :: "string option"
  fixed_value :: pyval

text \<open>
  One constructor per field class. A compiled regex is its \<open>match\<close> predicate
  on strings. A model is its \<open>_fields\<close>: the ordered mapping from key to field.
\<close>

datatype field =
    Field base
  | TypedField base "pytype list"
  | StringField base "(string \<Rightarrow> bool) option"
  | NumberField base "pytype list" "rat option" "rat option"
  | IntField base "rat option" "rat option"
  | FloatField base "rat option" "rat option"
  | BoolField base
  | ListField base "field option" bool bool
  | DateTimeField base rat
  | DictField base
  | MapField base field bool bool
  | DefinedDictField base "(string \<times> field) list"
  | VariableDefinedDictField base string "(pyval \<times> (string \<times> field) list) list"

type_synonym model = "(string \<times> field) list"

fun base_of :: "field \<Rightarrow> base" where
  "base_of (Field b) = b"
| "base_of (TypedField b _) = b"
| "base_of (StringField b _) = b"
| "base_of (NumberField b _ _ _) = b"
| "base_of (IntField b _ _) = b"
| "base_of (FloatField b _ _) = b"
| "base_of (BoolField b) = b"
| "base_of (ListField b _ _ _) = b"
| "base_of (DateTimeField b _) = b"
| "base_of (DictField b) = b"
| "base_of (MapField b _ _ _) = b"
| "base_of (DefinedDictField b _) = b"
| "base_of (VariableDefinedDictField b _ _) = b"

subsection \<open>Construction\<close>

text \<open>\<open>len(x)\<close> of a value; a bool has no length.\<close>

fun py_len :: "pyval \<Rightarrow> pyerror + nat" where
  "py_len (VStr s) = Inr (length s)"
| "py_len (VList xs) = Inr (length xs)"
| "py_len (VDict d) = Inr (length d)"
| "py_len _ = Inl TypeError"

text \<open>
  \<open>{ v : k for k, v in choices.items() }\<close>: a TypeError on an unhashable
  value, a later pair replaces an earlier one with an equal key.
\<close>

fun adict_set :: "(pyval \<times> pyval) list \<Rightarrow> pyval \<Rightarrow> pyval \<Rightarrow> (pyval \<times> pyval) list" where
  "adict_set [] k v = [(k, v)]"
| "adict_set ((k', v') # d) k v =
     (if py_eq k' k then (k', v) # d else (k', v') # adict_set d k v)"

definition reverse_choices :: "(pyval \<times> pyval) list \<Rightarrow> pyerror + (pyval \<times> pyval) list" where
  "reverse_choices c =
     fold_err (\<lambda>(k, v) r. if hashable v then Inr (adict_set r v k) else Inl TypeError) c []"

text \<open>\<open>a != b\<close> of two dicts with arbitrary hashable keys.\<close>

definition adict_ne :: "(pyval \<times> pyval) list \<Rightarrow> (pyval \<times> pyval) list \<Rightarrow> bool" where
  "adict_ne a b =
     (\<not> (length a = length b \<and>
         list_all (\<lambda>(k, v). case find (\<lambda>(k', _). py_eq k' k) b of
                              None \<Rightarrow> False | Some (_, w) \<Rightarrow> py_eq v w) a))"

text \<open>
  \<open>Field.__init__\<close>, with the keyword arguments as a \<open>base\<close>; the result is
  the attributes of the new field. The uniqueness check takes \<open>len\<close> of the
  comparison \<open>self.reversed_choices != self.choices\<close>.
\<close>

definition Field_init :: "base \<Rightarrow> pyerror + base" where
  "Field_init kw =
     (case choices kw of
        ChoiceDict c \<Rightarrow>
          bind_err (reverse_choices c) (\<lambda>reversed_choices.
          bind_err (py_len (VBool (adict_ne reversed_choices c))) (\<lambda>n.
          if n \<noteq> 0 then Inl DictFieldError else Inr kw))
      | _ \<Rightarrow> Inr kw)"

definition TypedField_init :: "pytype list option \<Rightarrow> base \<Rightarrow> pyerror + base \<times> pytype list" where
  "TypedField_init allowed_type kw =
     bind_err (Field_init kw) (\<lambda>b.
     case allowed_type of None \<Rightarrow> Inl DictFieldError | Some ts \<Rightarrow> Inr (b, ts))"

text \<open>\<open>NumberField.__init__\<close>: \<open>min\<close> and \<open>max\<close> are dropped when \<open>choices\<close> is set.\<close>

definition NumberField_bounds :: "base \<Rightarrow> rat option \<Rightarrow> rat option \<Rightarrow> rat option \<times> rat option" where
  "NumberField_bounds b mn mx = (if choices b = NoChoices then (mn, mx) else (None, None))"

definition NumberField_init ::
  "pytype list option \<Rightarrow> rat option \<Rightarrow> rat option \<Rightarrow> base \<Rightarrow> pyerror + field" where
  "NumberField_init allowed_type mn mx kw =
     bind_err (TypedField_init allowed_type kw) (\<lambda>(b, ts).
     case NumberField_bounds b mn mx of (mn', mx') \<Rightarrow> Inr (NumberField b ts mn' mx'))"

definition IntField_init :: "rat option \<Rightarrow> rat option \<Rightarrow> base \<Rightarrow> pyerror + field" where
  "IntField_init mn mx kw =
     bind_err (TypedField_init (Some [TInt]) kw) (\<lambda>(b, ts).
     case NumberField_bounds b mn mx of (mn', mx') \<Rightarrow> Inr (IntField b mn' mx'))"

definition FloatField_init :: "rat option \<Rightarrow> rat option \<Rightarrow> base \<Rightarrow> pyerror + field" where
  "FloatField_init mn mx kw =
     bind_err (TypedField_init (Some [TFloat, TInt]) kw) (\<lambda>(b, ts).
     case NumberField_bounds b mn mx of (mn', mx') \<Rightarrow> Inr (FloatField b mn' mx'))"


section \<open>Validation\<close>

text \<open>
  An error is the bare kind when \<open>with_key\<close> is \<open>None\<close>, otherwise the triple
  of path, kind and offending value. A generator is the list of what it yields,
  then the exception that ends it, if one does.
\<close>

datatype err_item = ErrKind string | ErrTriple "string option" string pyval

type_synonym gen = "err_item list \<times> pyerror option"

definition ERROR_IS_REQUIRED :: string where "ERROR_IS_REQUIRED = ''required''"
definition ERROR_TYPE :: string where "ERROR_TYPE = ''type''"
definition ERROR_VALUE :: string where "ERROR_VALUE = ''value''"

definition gen_empty :: gen where
  "gen_empty = ([], None)"

definition gen_yield :: "err_item \<Rightarrow> gen" where
  "gen_yield x = ([x], None)"

definition gen_raise :: "pyerror \<Rightarrow> gen" where
  "gen_raise e = ([], Some e)"

definition gen_then :: "gen \<Rightarrow> gen \<Rightarrow> gen" where
  "gen_then g h = (case snd g of Some e \<Rightarrow> g | None \<Rightarrow> (fst g @ fst h, snd h))"

definition gen_concat :: "gen list \<Rightarrow> gen" where
  "gen_concat gs = foldr gen_then gs gen_empty"

definition mk_err :: "string option \<Rightarrow> string \<Rightarrow> pyval \<Rightarrow> err_item" where
  "mk_err with_key kind v =
     (case with_key of None \<Rightarrow> ErrKind kind | Some k \<Rightarrow> ErrTriple (Some k) kind v)"

text \<open>\<open>value in self.choices\<close>: a set or a dict hashes the value, a list compares.\<close>

fun choices_contains :: "choices \<Rightarrow> pyval \<Rightarrow> pyerror + bool" where
  "choices_contains NoChoices v = Inr True"
| "choices_contains (ChoiceSet xs) v =
     (if hashable v then Inr (list_ex (\<lambda>x. py_eq x v) xs) else Inl TypeError)"
| "choices_contains (ChoiceList xs) v = Inr (list_ex (\<lambda>x. py_eq x v) xs)"
| "choices_contains (ChoiceDict c) v =
     (if hashable v then Inr (list_ex (\<lambda>(k, _). py_eq k v) c) else Inl TypeError)"

definition Field_errors :: "base \<Rightarrow> pyval \<Rightarrow> string option \<Rightarrow> gen" where
  "Field_errors b v with_key =
     (if v = VNone then
        (if is_required b then gen_yield (mk_err with_key ERROR_IS_REQUIRED VNone)
         else gen_empty)
      else if choices b \<noteq> NoChoices then
        (case choices_contains (choices b) v of
           Inl e \<Rightarrow> gen_raise e
         | Inr c \<Rightarrow> if \<not> c then gen_yield (mk_err with_key ERROR_VALUE v) else gen_empty)
      else gen_empty)"

definition TypedField_errors :: "base \<Rightarrow> pytype list \<Rightarrow> pyval \<Rightarrow> string option \<Rightarrow> gen" where
  "TypedField_errors b allowed_type v with_key =
     gen_then (Field_errors b v with_key)
       (if v \<noteq> VNone \<and> \<not> isinstance v allowed_type
        then gen_yield (mk_err with_key ERROR_TYPE v) else gen_empty)"

text \<open>\<open>regex.match(value)\<close>: a TypeError unless the value is a string.\<close>

fun re_match :: "(string \<Rightarrow> bool) \<Rightarrow> pyval \<Rightarrow> pyerror + bool" where
  "re_match re (VStr s) = Inr (re s)"
| "re_match re _ = Inl TypeError"

definition StringField_errors ::
  "base \<Rightarrow> (string \<Rightarrow> bool) option \<Rightarrow> pyval \<Rightarrow> string option \<Rightarrow> gen" where
  "StringField_errors b regex v with_key =
     gen_then (TypedField_errors b [TStr] v with_key)
       (case regex of
          None \<Rightarrow> gen_empty
        | Some re \<Rightarrow>
            if v \<noteq> VNone then
              (case re_match re v of
                 Inl e \<Rightarrow> gen_raise e
               | Inr m \<Rightarrow> if \<not> m then gen_yield (ErrTriple with_key ERROR_VALUE v)
                          else gen_empty)
            else gen_empty)"

text \<open>
  \<open>(self.min is not None and value < self.min) or
   (self.max is not None and value > self.max)\<close>, evaluated left to right.
\<close>

definition out_of_bounds :: "rat option \<Rightarrow> rat option \<Rightarrow> pyval \<Rightarrow> pyerror + bool" where
  "out_of_bounds mn mx v =
     bind_err (case mn of None \<Rightarrow> Inr False | Some m \<Rightarrow> py_lt_num v m) (\<lambda>below.
     if below then Inr True
     else (case mx of None \<Rightarrow> Inr False | Some m \<Rightarrow> py_gt_num v m))"

definition NumberField_errors ::
  "base \<Rightarrow> pytype list \<Rightarrow> rat option \<Rightarrow> rat option \<Rightarrow> pyval \<Rightarrow> string option \<Rightarrow> gen" where
  "NumberField_errors b allowed_type mn mx v with_key =
     gen_then (TypedField_errors b allowed_type v with_key)
       (if v \<noteq> VNone then
          (case out_of_bounds mn mx v of
             Inl e \<Rightarrow> gen_raise e
           | Inr bad \<Rightarrow>
               if bad then
                 (case with_key of
                    None \<Rightarrow> gen_yield (ErrKind ERROR_VALUE)
                  | Some k \<Rightarrow> if k \<noteq> [] then gen_yield (ErrTriple (Some k) ERROR_VALUE v)
                              else gen_yield (ErrKind ERROR_VALUE))
               else gen_empty)
        else gen_empty)"

definition DateTimeField_errors :: "base \<Rightarrow> pyval \<Rightarrow> string option \<Rightarrow> gen" where
  "DateTimeField_errors b v with_key =
     gen_then (Field_errors b v with_key)
       (if v \<noteq> VNone \<and> \<not> isinstance v [TDateTime]
        then gen_yield (mk_err with_key ERROR_TYPE v) else gen_empty)"

text \<open>\<open>str(ind)\<close> and \<open>".".join([a, b])\<close>.\<close>

fun digits_of :: "nat \<Rightarrow> string" where
  "digits_of n =
     (if n < 10 then [char_of (48 + n)] else digits_of (n div 10) @ [char_of (48 + n mod 10)])"

definition join_dot :: "string \<Rightarrow> string \<Rightarrow> string" where
  "join_dot a b = a @ ''.'' @ b"

text \<open>\<open>self.models.get(_type)\<close>: the tag is hashed, a missing tag gives \<open>None\<close>.\<close>

definition models_get :: "(pyval \<times> 'm) list \<Rightarrow> pyval \<Rightarrow> pyerror + 'm option" where
  "models_get ms t =
     (if hashable t then Inr (map_option snd (find (\<lambda>(k, _). py_eq k t) ms))
      else Inl TypeError)"

text \<open>The storage key of a field stored under \<open>key\<close>: \<open>definition.dict_key or key\<close>.\<close>

definition eff_key :: "field \<Rightarrow> string \<Rightarrow> string" where
  "eff_key f key =
     (case dict_key (base_of f) of None \<Rightarrow> key | Some k \<Rightarrow> if k \<noteq> [] then k else key)"

lemma models_get_size:
  "models_get ms t = Inr (Some m) \<Longrightarrow>
   size_list (size_prod (\<lambda>_. 0) size) m
     < Suc (size_list (size_prod (\<lambda>_. 0) (size_list (size_prod (\<lambda>_. 0) size))) ms)"
proof (induction ms)
  case Nil
  then show ?case by (simp add: models_get_def split: if_splits)
next
  case (Cons p ms)
  then show ?case
    by (cases p) (auto simp: models_get_def split: if_splits)
qed

text \<open>
  \<open>errors\<close> of every field class, and \<open>DefinedDict._yield_errors\<close>. Without
  \<open>with_key\<close> a \<open>MapField\<close> iterates the dict itself, which yields its keys,
  and unpacks each key into two names.
\<close>

function (sequential) field_errors :: "field \<Rightarrow> pyval \<Rightarrow> string option \<Rightarrow> gen"
  and yield_errors :: "model \<Rightarrow> pyval \<Rightarrow> string option \<Rightarrow> gen"
where
  "field_errors (Field b) v with_key = Field_errors b v with_key"
| "field_errors (TypedField b ts) v with_key = TypedField_errors b ts v with_key"
| "field_errors (StringField b regex) v with_key = StringField_errors b regex v with_key"
| "field_errors (NumberField b ts mn mx) v with_key = NumberField_errors b ts mn mx v with_key"
| "field_errors (IntField b mn mx) v with_key = NumberField_errors b [TInt] mn mx v with_key"
| "field_errors (FloatField b mn mx) v with_key =
     NumberField_errors b [TFloat, TInt] mn mx v with_key"
| "field_errors (BoolField b) v with_key = TypedField_errors b [TBool] v with_key"
| "field_errors (DateTimeField b precision) v with_key = DateTimeField_errors b v with_key"
| "field_errors (DictField b) v with_key = TypedField_errors b [TDict] v with_key"
| "field_errors (ListField b inner_type ensure_list remove_none_value) v with_key =
     gen_then (TypedField_errors b [TList] v with_key)
       (case inner_type of
          None \<Rightarrow> gen_empty
        | Some inner \<Rightarrow>
            (case v of
               VList xs \<Rightarrow>
                 (case with_key of
                    Some k \<Rightarrow>
                      gen_concat (map (\<lambda>(ind, x).
                        field_errors inner x (Some (join_dot k (digits_of ind)))) (enumerate 0 xs))
                  | None \<Rightarrow> gen_concat (map (\<lambda>x. field_errors inner x None) xs))
             | _ \<Rightarrow> gen_empty))"
| "field_errors (MapField b inner ensure_dict remove_none_value) v with_key =
     gen_then (TypedField_errors b [TDict] v with_key)
       (case v of
          VDict d \<Rightarrow>
            (case with_key of
               Some wk \<Rightarrow>
                 gen_concat (map (\<lambda>(k, x). field_errors inner x (Some (join_dot wk k))) d)
             | None \<Rightarrow>
                 gen_concat (map (\<lambda>(k, x).
                   case k of [c1, c2] \<Rightarrow> field_errors inner (VStr [c2]) None
                   | _ \<Rightarrow> gen_raise ValueError) d))
        | _ \<Rightarrow> gen_empty)"
| "field_errors (DefinedDictField b m) v with_key =
     gen_then (TypedField_errors b [TDict] v with_key)
       (case v of VDict d \<Rightarrow> yield_errors m v with_key | _ \<Rightarrow> gen_empty)"
| "field_errors (VariableDefinedDictField b check_field models) v with_key =
     gen_then (TypedField_errors b [TDict] v with_key)
       (case v of
          VDict d \<Rightarrow>
            (let t = dict_get d check_field in
             if t = VNone then
               (case with_key of
                  None \<Rightarrow> gen_yield (ErrKind ERROR_IS_REQUIRED)
                | Some k \<Rightarrow>
                    gen_yield (ErrTriple (Some (join_dot k check_field)) ERROR_IS_REQUIRED VNone))
             else
               (case models_get models t of
                  Inl e \<Rightarrow> gen_raise e
                | Inr None \<Rightarrow>
                    (case with_key of
                       None \<Rightarrow> gen_yield (ErrKind ERROR_VALUE)
                     | Some k \<Rightarrow>
                         gen_yield (ErrTriple (Some (join_dot k check_field)) ERROR_VALUE t))
                | Inr (Some m) \<Rightarrow> yield_errors m v with_key))
        | _ \<Rightarrow> gen_empty)"
| "yield_errors [] document parent = gen_empty"
| "yield_errors ((key0, definition) # rest) document parent =
     gen_then
       (let key = eff_key definition key0;
            key_string = (case parent of None \<Rightarrow> key | Some p \<Rightarrow> join_dot p key)
        in case py_get document key of
             Inl e \<Rightarrow> gen_raise e
           | Inr v \<Rightarrow> field_errors definition v (Some key_string))
       (yield_errors rest document parent)"
  by pat_completeness auto

termination
  by (relation "measure (\<lambda>x. case x of
         Inl (f, _) \<Rightarrow> size f
       | Inr (m, _) \<Rightarrow> size_list (size_prod (\<lambda>_. 0) size) m)")
     (auto dest: models_get_size)

definition get_document_errors :: "model \<Rightarrow> pyval \<Rightarrow> pyerror + err_item list" where
  "get_document_errors cls document =
     (case yield_errors cls document None of
        (errs, None) \<Rightarrow> Inr errs
      | (errs, Some e) \<Rightarrow> Inl e)"

text \<open>\<open>next\<close> on the generator: the first item decides, the rest is not run.\<close>

definition is_document_valid :: "model \<Rightarrow> pyval \<Rightarrow> pyerror + bool" where
  "is_document_valid cls document =
     (case yield_errors cls document None of
        (x # _, _) \<Rightarrow> Inr False
      | ([], None) \<Rightarrow> Inr True
      | ([], Some e) \<Rightarrow> Inl e)"


section \<open>Defaults\<close>

lemma size_field_in_model:
  "(a, b) \<in> set cls \<Longrightarrow> size b < size_list (size_prod (\<lambda>_. 0) size) cls"
  by (induction cls) auto

definition Field_make_default :: "base \<Rightarrow> pyval" where
  "Field_make_default b = (case default_v b of DefaultValue v \<Rightarrow> v | DefaultCallable v \<Rightarrow> v)"

text \<open>
  \<open>make_default\<close> of every field class and \<open>DefinedDict.make_default\<close>, a dict
  comprehension over \<open>_fields\<close>. Values are trees here, so the default enters the
  document as a value of its own. In the code the document holds the field's
  own default object (and its own \<open>fixed_value\<close> object): when that object is a
  list or a dict, a clean that changes the slot in place changes the default of
  the field as well. The two agree for defaults and fixed values that are not
  lists or dicts.
\<close>

function (sequential) field_make_default :: "field \<Rightarrow> pyval"
  and model_make_default :: "model \<Rightarrow> (string \<times> pyval) list"
where
  "field_make_default (DefinedDictField b m) =
     (if default_v b = DefaultValue VNone then VDict (model_make_default m)
      else Field_make_default b)"
| "field_make_default (VariableDefinedDictField b check_field models) = VNone"
| "field_make_default f = Field_make_default (base_of f)"
| "model_make_default cls =
     fold (\<lambda>(key, definition) d. dict_set d (eff_key definition key) (field_make_default definition))
       cls []"
  by pat_completeness auto

termination
  by (relation "measure (\<lambda>x. case x of
         Inl f \<Rightarrow> size f
       | Inr m \<Rightarrow> size_list (size_prod (\<lambda>_. 0) size) m)")
     (auto dest: size_field_in_model)

section \<open>Normalisation\<close>

text \<open>\<open>int(x)\<close> of a number truncates toward zero.\<close>

definition py_trunc :: "rat \<Rightarrow> int" where
  "py_trunc r = (if r \<ge> 0 then \<lfloor>r\<rfloor> else \<lceil>r\<rceil>)"

text \<open>
  \<open>int_to_datetime\<close>, in exact arithmetic: \<open>//\<close> floors, \<open>%\<close> takes the sign of
  the divisor, \<open>replace(microsecond=...)\<close> refuses a value outside 0..999999.
  The code computes \<open>//\<close> and \<open>%\<close> on floats, since \<open>precision\<close> is one: the two
  agree while the int and the precision are integers below \<open>2 ^ 53\<close> in absolute
  value; beyond that the code rounds, and raises OverflowError for an int that
  no float holds. That rounding, the OverflowError and the range of
  \<open>fromtimestamp\<close>, which depends on the platform, are not modelled. Whenever the
  code returns, it returns a datetime, as the model does.
\<close>

definition int_to_datetime :: "int \<Rightarrow> rat \<Rightarrow> pyerror + pyval" where
  "int_to_datetime microsecond precision =
     (if precision = 0 then Inl ZeroDivisionError
      else
        let seconds_part = py_trunc (of_int \<lfloor>of_int microsecond / precision\<rfloor>);
            microseconds_part =
              py_trunc (of_int microsecond - precision * of_int \<lfloor>of_int microsecond / precision\<rfloor>)
        in if 0 \<le> microseconds_part \<and> microseconds_part < 1000000
           then Inr (VDateTime seconds_part microseconds_part)
           else Inl ValueError)"

definition Field_clean :: "base \<Rightarrow> pyval \<Rightarrow> string \<Rightarrow> bool \<Rightarrow> pyerror + pyval" where
  "Field_clean b document key set_default =
     bind_err (if fixed_value b \<noteq> VNone then py_setitem document key (fixed_value b)
               else Inr document) (\<lambda>d1.
     bind_err (py_contains d1 key) (\<lambda>present.
     if \<not> present then
       (if set_default then py_setitem d1 key (Field_make_default b) else Inr d1)
     else Inr d1))"

definition DateTimeField_clean ::
  "base \<Rightarrow> rat \<Rightarrow> pyval \<Rightarrow> string \<Rightarrow> bool \<Rightarrow> pyerror + pyval" where
  "DateTimeField_clean b precision document key set_default =
     bind_err (Field_clean b document key set_default) (\<lambda>d1.
     bind_err (py_getitem d1 key) (\<lambda>v.
     case v of
       VInt i \<Rightarrow> bind_err (int_to_datetime i precision) (\<lambda>dt. py_setitem d1 key dt)
     | VBool t \<Rightarrow>
         bind_err (int_to_datetime (if t then 1 else 0) precision) (\<lambda>dt. py_setitem d1 key dt)
     | _ \<Rightarrow> Inr d1))"

text \<open>\<open>for item in v\<close>: a dict yields its keys, a string its characters.\<close>

fun py_iter :: "pyval \<Rightarrow> pyerror + pyval list" where
  "py_iter (VList xs) = Inr xs"
| "py_iter (VStr s) = Inr (map (\<lambda>c. VStr [c]) s)"
| "py_iter (VDict d) = Inr (map (\<lambda>(k, _). VStr k) d)"
| "py_iter _ = Inl TypeError"

fun py_items :: "pyval \<Rightarrow> pyerror + (string \<times> pyval) list" where
  "py_items (VDict d) = Inr d"
| "py_items _ = Inl AttributeError"

text \<open>\<open>VariableDefinedDictField._get_model\<close>.\<close>

definition get_model :: "string \<Rightarrow> (pyval \<times> 'm) list \<Rightarrow> pyval \<Rightarrow> pyerror + 'm option" where
  "get_model check_field models v =
     (if v = VNone then Inr None
      else bind_err (py_get v check_field) (\<lambda>t.
           if t = VNone then Inr None else models_get models t))"

lemma get_model_size:
  "get_model c ms v = Inr (Some m) \<Longrightarrow>
   size_list (size_prod (\<lambda>_. 0) size) m
     < Suc (size_list (size_prod (\<lambda>_. 0) (size_list (size_prod (\<lambda>_. 0) size))) ms)"
  by (auto simp: get_model_def bind_err_def split: if_splits sum.splits dest: models_get_size)

text \<open>
  \<open>clean\<close> of every field class and \<open>DefinedDict.clean_document\<close>. The source
  mutates the document and the nested values in place; here each step returns
  the new document, and a nested value that was cleaned is stored back in its
  slot. The state a raised exception leaves behind is not tracked.
\<close>

function (sequential)
  field_clean :: "field \<Rightarrow> pyval \<Rightarrow> string \<Rightarrow> bool \<Rightarrow> bool \<Rightarrow> pyerror + pyval"
  and clean_document :: "model \<Rightarrow> pyval \<Rightarrow> bool \<Rightarrow> bool \<Rightarrow> pyerror + pyval"
where
  "field_clean (ListField b inner_type ensure_list remove_none_value) document key
       set_default remove_undefined =
     bind_err (Field_clean b document key set_default) (\<lambda>d1.
     bind_err (if ensure_list then
                 bind_err (py_get d1 key) (\<lambda>v.
                 if v = VNone then py_setitem d1 key (VList []) else Inr d1)
               else Inr d1) (\<lambda>d2.
     bind_err (if remove_none_value then
                 bind_err (py_get d2 key) (\<lambda>v.
                 case v of
                   VList xs \<Rightarrow> py_setitem d2 key (VList (filter (\<lambda>item. item \<noteq> VNone) xs))
                 | _ \<Rightarrow> Inr d2)
               else Inr d2) (\<lambda>d3.
     case inner_type of
       None \<Rightarrow> Inr d3
     | Some inner \<Rightarrow>
         bind_err (py_get d3 key) (\<lambda>v.
         if truthy v then
           (case inner of
              DefinedDictField ib m \<Rightarrow>
                bind_err (py_iter v) (\<lambda>items.
                bind_err (map_err (\<lambda>item. clean_document m item set_default remove_undefined)
                            items) (\<lambda>items'.
                case v of VList _ \<Rightarrow> py_setitem d3 key (VList items') | _ \<Rightarrow> Inr d3))
            | _ \<Rightarrow> Inr d3)
         else Inr d3))))"
| "field_clean (DateTimeField b precision) document key set_default remove_undefined =
     DateTimeField_clean b precision document key set_default"
| "field_clean (MapField b inner ensure_dict remove_none_value) document key
       set_default remove_undefined =
     bind_err (Field_clean b document key set_default) (\<lambda>d1.
     bind_err (if ensure_dict then
                 bind_err (py_get d1 key) (\<lambda>v.
                 if v = VNone then py_setitem d1 key (VDict []) else Inr d1)
               else Inr d1) (\<lambda>d2.
     bind_err (py_get d2 key) (\<lambda>v.
     if v \<noteq> VNone then
       bind_err (if remove_none_value then
                   bind_err (py_items v) (\<lambda>items.
                   Inr (VDict (filter (\<lambda>(k, x). x \<noteq> VNone) items)))
                 else Inr v) (\<lambda>v1.
       bind_err (py_items v1) (\<lambda>items.
       bind_err (fold_err (\<lambda>(k, _) mp. field_clean inner mp k set_default remove_undefined)
                   items v1) (\<lambda>v2.
       py_setitem d2 key v2)))
     else Inr d2)))"
| "field_clean (DefinedDictField b m) document key set_default remove_undefined =
     bind_err (py_contains document key) (\<lambda>present.
     bind_err (if \<not> present then
                 (if set_default
                  then py_setitem document key (field_make_default (DefinedDictField b m))
                  else Inr document)
               else Inr document) (\<lambda>d1.
     bind_err (py_get d1 key) (\<lambda>v.
     if v \<noteq> VNone then
       bind_err (clean_document m v set_default remove_undefined) (\<lambda>v'.
       py_setitem d1 key v')
     else Inr d1)))"
| "field_clean (VariableDefinedDictField b check_field models) document key
       set_default remove_undefined =
     bind_err (py_contains document key) (\<lambda>present.
     bind_err (if \<not> present then
                 (if set_default then py_setitem document key VNone else Inr document)
               else Inr document) (\<lambda>d1.
     bind_err (py_get d1 key) (\<lambda>v.
     if v \<noteq> VNone then
       bind_err (get_model check_field models v) (\<lambda>model.
       case model of
         None \<Rightarrow> Inl AttributeError
       | Some m \<Rightarrow>
           bind_err (clean_document m v set_default remove_undefined) (\<lambda>v'.
           py_setitem d1 key v'))
     else Inr d1)))"
| "field_clean f document key set_default remove_undefined =
     Field_clean (base_of f) document key set_default"
| "clean_document cls document set_default remove_undefined =
     (if document = VNone then Inr document
      else
        bind_err (fold_err (\<lambda>(key, definition) d.
                    field_clean definition d (eff_key definition key)
                      set_default remove_undefined) cls document) (\<lambda>d1.
        if remove_undefined then
          bind_err (py_items d1) (\<lambda>items.
          Inr (VDict (filter (\<lambda>(k, _). k \<in> set (map fst cls)) items)))
        else Inr d1))"
  by pat_completeness auto

termination
  by (relation "measure (\<lambda>x. case x of
         Inl (f, _) \<Rightarrow> size f
       | Inr (m, _) \<Rightarrow> size_list (size_prod (\<lambda>_. 0) size) m)")
     (auto dest: get_model_size size_field_in_model)


section \<open>Merge-update\<close>

text \<open>
  \<open>update\<close> mutates the document and returns nothing, so an exception leaves
  the document as the statements before it made it. The result is the document
  after the call and the exception that ended it, if one did.
\<close>

type_synonym upd = "pyval \<times> pyerror option"

definition upd_of :: "pyval \<Rightarrow> pyerror + pyval \<Rightarrow> upd" where
  "upd_of document r = (case r of Inl e \<Rightarrow> (document, Some e) | Inr d \<Rightarrow> (d, None))"

fun fold_upd :: "('a \<Rightarrow> pyval \<Rightarrow> upd) \<Rightarrow> 'a list \<Rightarrow> pyval \<Rightarrow> upd" where
  "fold_upd f [] s = (s, None)"
| "fold_upd f (x # xs) s =
     (case f x s of (s', Some e) \<Rightarrow> (s', Some e) | (s', None) \<Rightarrow> fold_upd f xs s')"

lemma fold_upd_cong [fundef_cong]:
  "xs = ys \<Longrightarrow> s = t \<Longrightarrow> (\<And>x u. x \<in> set ys \<Longrightarrow> f x u = g x u)
   \<Longrightarrow> fold_upd f xs s = fold_upd g ys t"
  by (induction ys arbitrary: xs s t) (auto split: prod.splits option.splits)

text \<open>A nested value mutated in place is seen through the slot that holds it.\<close>

definition store_back :: "pyval \<Rightarrow> string \<Rightarrow> upd \<Rightarrow> upd" where
  "store_back document key r =
     (case document of
        VDict d \<Rightarrow> (VDict (dict_set d key (fst r)), snd r)
      | _ \<Rightarrow> (document, snd r))"

definition Field_update :: "pyval \<Rightarrow> string \<Rightarrow> pyval \<Rightarrow> upd" where
  "Field_update document key v = upd_of document (py_setitem document key v)"

function bit_length :: "nat \<Rightarrow> nat" where
  "bit_length n = (if n = 0 then 0 else Suc (bit_length (n div 2)))"
  by pat_completeness auto

termination
  by (relation "measure id") auto

text \<open>
  \<open>float(i)\<close>: the nearest double, ties to even; \<open>None\<close> is the OverflowError
  of an int too large for a double.
\<close>

definition float_of_int :: "int \<Rightarrow> rat option" where
  "float_of_int i =
     (let a = nat \<bar>i\<bar>; n = bit_length a in
      if n \<le> 53 then Some (of_int i)
      else
        let sh = n - 53;
            q = a div 2 ^ sh;
            r = a mod 2 ^ sh;
            h = 2 ^ (sh - 1);
            q' = (if r > h \<or> (r = h \<and> odd q) then q + 1 else q);
            m = q' * 2 ^ sh
        in if m \<ge> 2 ^ 1024 then None else Some (of_int (sgn i * int m)))"

definition FloatField_update :: "pyval \<Rightarrow> string \<Rightarrow> pyval \<Rightarrow> upd" where
  "FloatField_update document key v =
     (let v' = (case v of
                  VInt i \<Rightarrow> (case float_of_int i of None \<Rightarrow> v | Some r \<Rightarrow> VFloat r)
                | VBool t \<Rightarrow> VFloat (if t then 1 else 0)
                | _ \<Rightarrow> v)
      in Field_update document key v')"

text \<open>\<open>d.update(other)\<close>.\<close>

definition dict_update :: "(string \<times> pyval) list \<Rightarrow> (string \<times> pyval) list \<Rightarrow> (string \<times> pyval) list" where
  "dict_update d other = fold (\<lambda>(k, v) acc. dict_set acc k v) other d"

definition DictField_update :: "pyval \<Rightarrow> string \<Rightarrow> pyval \<Rightarrow> upd" where
  "DictField_update document key v =
     (case v of
        VDict nv \<Rightarrow>
          (case py_get document key of
             Inl e \<Rightarrow> (document, Some e)
           | Inr cur \<Rightarrow>
               if cur = VNone then upd_of document (py_setitem document key v)
               else (case cur of
                       VDict cd \<Rightarrow>
                         upd_of document (py_setitem document key (VDict (dict_update cd nv)))
                     | _ \<Rightarrow> (document, None)))
      | _ \<Rightarrow> (document, None))"

lemma map_of_size_field:
  "map_of cls k = Some f \<Longrightarrow> size f < size_list (size_prod (\<lambda>_. 0) size) cls"
  by (auto dest: map_of_SomeD size_field_in_model)

text \<open>\<open>update\<close> of every field class and \<open>DefinedDict.update\<close>.\<close>

function (sequential)
  field_update :: "field \<Rightarrow> pyval \<Rightarrow> string \<Rightarrow> pyval \<Rightarrow> upd"
  and model_update :: "model \<Rightarrow> pyval \<Rightarrow> pyval \<Rightarrow> upd"
where
  "field_update (FloatField b mn mx) document key v = FloatField_update document key v"
| "field_update (DictField b) document key v = DictField_update document key v"
| "field_update (MapField b inner ensure_dict remove_none_value) document key v =
     (case v of
        VDict nv \<Rightarrow>
          (case py_get document key of
             Inl e \<Rightarrow> (document, Some e)
           | Inr cur \<Rightarrow>
               (case (if cur = VNone then Field_update document key (VDict [])
                      else (document, None)) of
                  (d1, Some e) \<Rightarrow> (d1, Some e)
                | (d1, None) \<Rightarrow>
                    (case py_getitem d1 key of
                       Inl e \<Rightarrow> (d1, Some e)
                     | Inr mp0 \<Rightarrow>
                         store_back d1 key
                           (fold_upd (\<lambda>(k, x) mp.
                              case py_get mp k of
                                Inl e \<Rightarrow> (mp, Some e)
                              | Inr old \<Rightarrow>
                                  (case inner of
                                     DefinedDictField ib m \<Rightarrow>
                                       if old = VNone \<or> x = VNone then Field_update mp k x
                                       else store_back mp k (model_update m old x)
                                   | _ \<Rightarrow>
                                       if old = VNone then Field_update mp k x
                                       else field_update inner mp k x)) nv mp0))))
      | _ \<Rightarrow> (document, None))"
| "field_update (DefinedDictField b m) document key v =
     (case v of
        VDict nv \<Rightarrow>
          (case py_get document key of
             Inl e \<Rightarrow> (document, Some e)
           | Inr cur \<Rightarrow>
               if cur = VNone then Field_update document key v
               else store_back document key (model_update m cur v))
      | _ \<Rightarrow> (document, None))"
| "field_update (VariableDefinedDictField b check_field models) document key v =
     (case v of
        VDict nv \<Rightarrow>
          (case py_get document key of
             Inl e \<Rightarrow> (document, Some e)
           | Inr doc \<Rightarrow>
               if v = VNone \<or> doc = VNone then Field_update document key v
               else
                 (case py_get doc check_field of
                    Inl e \<Rightarrow> (document, Some e)
                  | Inr doc_type \<Rightarrow>
                      (let value_type = dict_get nv check_field in
                       if doc_type = VNone \<or> value_type = VNone \<or> py_eq doc_type value_type
                       then
                         (case models_get models (py_or doc_type value_type) of
                            Inl e \<Rightarrow> (document, Some e)
                          | Inr None \<Rightarrow> (document, Some ValueError)
                          | Inr (Some m) \<Rightarrow> store_back document key (model_update m doc v))
                       else if value_type \<noteq> VNone then Field_update document key v
                       else (document, None))))
      | _ \<Rightarrow> (document, None))"
| "field_update f document key v = Field_update document key v"
| "model_update cls document new_value =
     (case py_items new_value of
        Inl e \<Rightarrow> (document, Some e)
      | Inr items \<Rightarrow>
          fold_upd (\<lambda>(key, v) d.
            case map_of cls key of
              None \<Rightarrow> (d, None)
            | Some definition \<Rightarrow> field_update definition d key v) items document)"
  by pat_completeness auto

termination
  by (relation "measure (\<lambda>x. case x of
         Inl (f, _) \<Rightarrow> size f
       | Inr (m, _) \<Rightarrow> size_list (size_prod (\<lambda>_. 0) size) m)")
     (auto dest: models_get_size map_of_size_field)

section \<open>Model definitions\<close>

text \<open>
  \<open>DefinedDictMetaClass.__init__\<close>: \<open>bases\<close> are the \<open>_fields\<close> of the base
  classes, \<open>cdict\<close> the fields declared in the class body. A declared field
  without \<open>dict_key\<close> gets its attribute name as \<open>dict_key\<close>, then every
  declared field is entered under \<open>dict_key or name\<close>.
\<close>

definition set_dict_key :: "field \<Rightarrow> string \<Rightarrow> field" where
  "set_dict_key f k =
     (case f of
        Field b \<Rightarrow> Field (b\<lparr>dict_key := Some k\<rparr>)
      | TypedField b ts \<Rightarrow> TypedField (b\<lparr>dict_key := Some k\<rparr>) ts
      | StringField b re \<Rightarrow> StringField (b\<lparr>dict_key := Some k\<rparr>) re
      | NumberField b ts mn mx \<Rightarrow> NumberField (b\<lparr>dict_key := Some k\<rparr>) ts mn mx
      | IntField b mn mx \<Rightarrow> IntField (b\<lparr>dict_key := Some k\<rparr>) mn mx
      | FloatField b mn mx \<Rightarrow> FloatField (b\<lparr>dict_key := Some k\<rparr>) mn mx
      | BoolField b \<Rightarrow> BoolField (b\<lparr>dict_key := Some k\<rparr>)
      | ListField b i e r \<Rightarrow> ListField (b\<lparr>dict_key := Some k\<rparr>) i e r
      | DateTimeField b p \<Rightarrow> DateTimeField (b\<lparr>dict_key := Some k\<rparr>) p
      | DictField b \<Rightarrow> DictField (b\<lparr>dict_key := Some k\<rparr>)
      | MapField b i e r \<Rightarrow> MapField (b\<lparr>dict_key := Some k\<rparr>) i e r
      | DefinedDictField b m \<Rightarrow> DefinedDictField (b\<lparr>dict_key := Some k\<rparr>) m
      | VariableDefinedDictField b c ms \<Rightarrow>
          VariableDefinedDictField (b\<lparr>dict_key := Some k\<rparr>) c ms)"

fun fields_set :: "model \<Rightarrow> string \<Rightarrow> field \<Rightarrow> model" where
  "fields_set [] k f = [(k, f)]"
| "fields_set ((k', f') # fs) k f =
     (if k' = k then (k, f) # fs else (k', f') # fields_set fs k f)"

definition fields_update :: "model \<Rightarrow> model \<Rightarrow> model" where
  "fields_update fs other = fold (\<lambda>(k, f) acc. fields_set acc k f) other fs"

definition DefinedDictMetaClass_init :: "model list \<Rightarrow> model \<Rightarrow> model" where
  "DefinedDictMetaClass_init bases cdict =
     (let inherited = fold (\<lambda>base_fields acc. fields_update acc base_fields) bases [];
          named = map (\<lambda>(k, v). (k, if dict_key (base_of v) = None then set_dict_key v k else v))
                    cdict
      in fields_update inherited (map (\<lambda>(k, v). (eff_key v k, v)) named))"

text \<open>
  What the metaclass establishes for every model, nested ones included: keys
  are distinct and each field is stored under its own storage key.
\<close>

lemma size_model_in_models:
  "(t, m) \<in> set ms \<Longrightarrow>
   size_list (size_prod (\<lambda>_. 0) size) m
     < Suc (size_list (size_prod (\<lambda>_. 0) (size_list (size_prod (\<lambda>_. 0) size))) ms)"
  by (induction ms) auto

function (sequential) wf_field :: "field \<Rightarrow> bool" and wf_model :: "model \<Rightarrow> bool" where
  "wf_field (ListField b inner_type ensure_list remove_none_value) =
     (case inner_type of None \<Rightarrow> True | Some inner \<Rightarrow> wf_field inner)"
| "wf_field (MapField b inner ensure_dict remove_none_value) = wf_field inner"
| "wf_field (DefinedDictField b m) = wf_model m"
| "wf_field (VariableDefinedDictField b check_field models) =
     list_all (\<lambda>(t, m). wf_model m) models"
| "wf_field f = True"
| "wf_model cls =
     (distinct (map fst cls) \<and> list_all (\<lambda>(k, f). eff_key f k = k \<and> wf_field f) cls)"
  by pat_completeness auto

termination
  by (relation "measure (\<lambda>x. case x of
         Inl f \<Rightarrow> size f
       | Inr m \<Rightarrow> size_list (size_prod (\<lambda>_. 0) size) m)")
     (auto dest: size_model_in_models size_field_in_model)


section \<open>The models of the test suite\<close>

text \<open>A field constructed with no keyword argument.\<close>

definition base0 :: base where
  "base0 = \<lparr>is_required = False, choices = NoChoices, default_v = DefaultValue VNone,
            dict_key = None, fixed_value = VNone\<rparr>"

definition is_digit :: "char \<Rightarrow> bool" where
  "is_digit c = ((48::nat) \<le> of_char c \<and> of_char c \<le> (57::nat))"

definition is_upper :: "char \<Rightarrow> bool" where
  "is_upper c = ((65::nat) \<le> of_char c \<and> of_char c \<le> (90::nat))"

text \<open>The pattern \<open>\d{4}-[A-Z]+\<close> of \<open>Book.id\<close>, matched at the start of the string.\<close>

definition re_book_id :: "string \<Rightarrow> bool" where
  "re_book_id s =
     (6 \<le> length s \<and> list_all is_digit (take 4 s) \<and> s ! 4 = CHR ''-'' \<and> is_upper (s ! 5))"

definition Book :: model where
  "Book = DefinedDictMetaClass_init []
     [(''id'', StringField (base0\<lparr>is_required := True\<rparr>) (Some re_book_id)),
      (''author'', StringField base0 None),
      (''type'', StringField (base0\<lparr>fixed_value := VStr ''book''\<rparr>) None)]"

definition Pen :: model where
  "Pen = DefinedDictMetaClass_init []
     [(''color'', StringField (base0\<lparr>is_required := True,
          choices := ChoiceSet [VStr ''red'', VStr ''blue'', VStr ''green'']\<rparr>) None),
      (''type'', StringField (base0\<lparr>fixed_value := VStr ''pen''\<rparr>) None)]"

definition product_info :: field where
  "product_info = VariableDefinedDictField base0 ''type'' [(VStr ''book'', Book), (VStr ''pen'', Pen)]"

definition Product :: model where
  "Product = DefinedDictMetaClass_init []
     [(''name'', StringField (base0\<lparr>is_required := True\<rparr>) None),
      (''price'', FloatField (base0\<lparr>is_required := True\<rparr>) None None),
      (''stock'', IntField base0 None None),
      (''product_info'', product_info)]"


section \<open>Properties of validation\<close>

lemma gen_then_empty_right: "gen_then g gen_empty = g"
  by (cases g) (auto simp: gen_then_def gen_empty_def split: option.splits)

lemma yield_errors_get:
  "(\<And>k. py_get d1 k = py_get d2 k) \<Longrightarrow> yield_errors cls d1 parent = yield_errors cls d2 parent"
  by (induction cls) (auto simp: Let_def)

text \<open>
  What validation reports for a document in which every slot reads \<open>None\<close>: one
  \<open>required\<close> error for each required field, in declaration order, under the
  field's storage key.
\<close>

definition required_errors :: "model \<Rightarrow> err_item list" where
  "required_errors cls =
     map (\<lambda>(k, f). ErrTriple (Some (eff_key f k)) ERROR_IS_REQUIRED VNone)
       (filter (\<lambda>(k, f). is_required (base_of f)) cls)"

lemma field_errors_None:
  "field_errors fld VNone (Some ks) =
     (if is_required (base_of fld) then [ErrTriple (Some ks) ERROR_IS_REQUIRED VNone] else [], None)"
  by (cases fld)
     (simp_all add: Field_errors_def TypedField_errors_def StringField_errors_def
        NumberField_errors_def DateTimeField_errors_def gen_then_def gen_yield_def
        gen_empty_def mk_err_def split: option.splits)

lemma yield_errors_absent:
  "(\<And>k. py_get document k = Inr VNone) \<Longrightarrow>
   yield_errors cls document None = (required_errors cls, None)"
  by (induction cls)
     (auto simp: required_errors_def field_errors_None gen_then_def gen_empty_def Let_def)

text \<open>
  C7, absence equivalence: for every model and every key \<open>f\<close>, declared or not,
  the empty document and the document that binds \<open>f\<close> to \<open>None\<close> produce the
  same error sequence and the same validity verdict, because validation reads a
  slot with \<open>document.get(key)\<close> only, which is \<open>None\<close> for a missing key. In
  both cases the sequence is exactly the \<open>required\<close> error of each required field;
  in particular a model with a single required field \<open>f\<close> yields the single error
  \<open>(f, required, None)\<close> for \<open>{}\<close> and for \<open>{f: None}\<close>.
\<close>

theorem absence_equivalence:
  "get_document_errors cls (VDict []) = get_document_errors cls (VDict [(f, VNone)])
   \<and> is_document_valid cls (VDict []) = is_document_valid cls (VDict [(f, VNone)])
   \<and> get_document_errors cls (VDict []) = Inr (required_errors cls)
   \<and> get_document_errors cls (VDict [(f, VNone)]) = Inr (required_errors cls)
   \<and> is_document_valid cls (VDict []) = Inr (required_errors cls = [])
   \<and> is_document_valid cls (VDict [(f, VNone)]) = Inr (required_errors cls = [])
   \<and> (is_required (base_of fld) \<longrightarrow>
        required_errors [(f, fld)] = [ErrTriple (Some (eff_key fld f)) ''required'' VNone])"
proof -
  have 1: "yield_errors cls (VDict []) None = (required_errors cls, None)"
    by (rule yield_errors_absent) (simp add: dict_get_def)
  have 2: "yield_errors cls (VDict [(f, VNone)]) None = (required_errors cls, None)"
    by (rule yield_errors_absent) (simp add: dict_get_def)
  have 3: "is_required (base_of fld) \<longrightarrow>
        required_errors [(f, fld)] = [ErrTriple (Some (eff_key fld f)) ''required'' VNone]"
    by (simp add: required_errors_def ERROR_IS_REQUIRED_def)
  show ?thesis using 1 2 3
    by (cases "required_errors cls") (simp_all add: get_document_errors_def is_document_valid_def)
qed

theorem absence_equivalence_witness:
  "is_required (base_of (StringField (base0\<lparr>is_required := True\<rparr>) None))
   \<and> get_document_errors [(''name'', StringField (base0\<lparr>is_required := True\<rparr>) None)] (VDict [])
       = Inr [ErrTriple (Some ''name'') ''required'' VNone]
   \<and> get_document_errors [(''name'', StringField (base0\<lparr>is_required := True\<rparr>) None)]
         (VDict [(''name'', VNone)])
       = Inr [ErrTriple (Some ''name'') ''required'' VNone]
   \<and> get_document_errors Product (VDict [])
       = Inr [ErrTriple (Some ''name'') ''required'' VNone,
              ErrTriple (Some ''price'') ''required'' VNone]
   \<and> get_document_errors Product (VDict [(''price'', VNone)])
       = Inr [ErrTriple (Some ''name'') ''required'' VNone,
              ErrTriple (Some ''price'') ''required'' VNone]
   \<and> is_document_valid Product (VDict [(''price'', VNone)]) = Inr False
   \<and> get_document_errors Pen (VDict [(''type'', VNone)]) =
         Inr [ErrTriple (Some ''color'') ''required'' VNone]
   \<and> get_document_errors [(''name'', StringField base0 None)] (VDict [(''name'', VNone)]) = Inr []"
  using absence_equivalence [of "[(''name'', StringField (base0\<lparr>is_required := True\<rparr>) None)]"
          "''name''" "StringField (base0\<lparr>is_required := True\<rparr>) None"]
        absence_equivalence [of Product "''price''" "Field base0"]
        absence_equivalence [of Pen "''type''" "Field base0"]
        absence_equivalence [of "[(''name'', StringField base0 None)]" "''name''" "Field base0"]
  by (simp add: required_errors_def eff_key_def base0_def ERROR_IS_REQUIRED_def Product_def Pen_def Book_def
        product_info_def DefinedDictMetaClass_init_def fields_update_def set_dict_key_def)

text \<open>
  C2, validation is total: it is not. A \<open>StringField\<close> with a regex yields the
  type error for an int and then calls \<open>regex.match\<close> on it, so
  \<open>get_document_errors\<close> ends in a TypeError; a field whose \<open>choices\<close> is a
  set hashes the value before anything is yielded, so a list value makes
  \<open>is_document_valid\<close> end in a TypeError as well.
\<close>

theorem validation_raises_on_wrong_type:
  "get_document_errors [(''id'', StringField (base0\<lparr>dict_key := Some ''id''\<rparr>) (Some re_book_id))]
     (VDict [(''id'', VInt 1000)]) = Inl TypeError
   \<and> is_document_valid
       [(''tags'', StringField (base0\<lparr>dict_key := Some ''tags'',
            choices := ChoiceSet [VStr ''a'', VStr ''b'']\<rparr>) None)]
       (VDict [(''tags'', VList [])]) = Inl TypeError"
  by (simp add: get_document_errors_def is_document_valid_def eff_key_def base0_def dict_get_def
      StringField_errors_def TypedField_errors_def Field_errors_def gen_then_def gen_yield_def
      gen_empty_def gen_raise_def isinstance_def mk_err_def)

definition value_error :: "string option \<Rightarrow> pyval \<Rightarrow> err_item" where
  "value_error with_key v =
     (case with_key of
        None \<Rightarrow> ErrKind ERROR_VALUE
      | Some k \<Rightarrow> if k \<noteq> [] then ErrTriple (Some k) ERROR_VALUE v else ErrKind ERROR_VALUE)"

definition outside :: "rat option \<Rightarrow> rat option \<Rightarrow> rat \<Rightarrow> bool" where
  "outside mn mx x =
     ((case mn of None \<Rightarrow> False | Some m \<Rightarrow> x < m) \<or> (case mx of None \<Rightarrow> False | Some m \<Rightarrow> x > m))"

text \<open>
  What the bound check of a number field does on a value of the right type: an
  error below \<open>min\<close> and above \<open>max\<close>, none at \<open>min\<close> and none at \<open>max\<close>;
  with \<open>choices\<close> set the constructor drops both bounds.
\<close>

lemma number_init_cases:
  assumes "NumberField_init (Some ts) mn mx kw = Inr f
           \<or> (ts = [TInt] \<and> IntField_init mn mx kw = Inr f)
           \<or> (ts = [TFloat, TInt] \<and> FloatField_init mn mx kw = Inr f)"
  shows "Field_init kw = Inr kw \<and>
         field_errors f v wk =
           NumberField_errors kw ts (fst (NumberField_bounds kw mn mx))
             (snd (NumberField_bounds kw mn mx)) v wk"
  using assms
  by (auto simp: NumberField_init_def IntField_init_def FloatField_init_def TypedField_init_def
        Field_init_def bind_err_def split: sum.splits prod.splits choices.splits if_splits)

lemma NumberField_errors_typed:
  assumes "num_of v = Some x" "isinstance v ts" "choices b = NoChoices"
  shows "NumberField_errors b ts mn mx v wk =
           (if outside mn mx x then ([value_error wk v], None) else ([], None))"
proof -
  have nn: "v \<noteq> VNone" using assms(1) by auto
  have t: "TypedField_errors b ts v wk = gen_empty"
    using assms nn by (simp add: TypedField_errors_def Field_errors_def gen_then_def gen_empty_def)
  have o: "out_of_bounds mn mx v = Inr (outside mn mx x)"
    using assms(1)
    by (auto simp: out_of_bounds_def outside_def bind_err_def py_lt_num_def py_gt_num_def
        split: option.splits)
  show ?thesis
    using nn
    by (auto simp: NumberField_errors_def t o gen_then_def gen_empty_def gen_yield_def
        value_error_def split: option.splits)
qed

lemma number_bounds_max_inclusive:
  assumes "NumberField_init (Some ts) mn mx kw = Inr f
           \<or> (ts = [TInt] \<and> IntField_init mn mx kw = Inr f)
           \<or> (ts = [TFloat, TInt] \<and> FloatField_init mn mx kw = Inr f)"
    and "num_of v = Some x" and "isinstance v ts"
  shows "(choices kw = NoChoices \<longrightarrow>
            field_errors f v with_key =
              (if outside mn mx x then ([value_error with_key v], None) else ([], None)))
       \<and> (choices kw \<noteq> NoChoices \<longrightarrow>
            field_errors f v with_key = TypedField_errors kw ts v with_key)"
proof -
  have nn: "v \<noteq> VNone" using assms(2) by auto
  note c = number_init_cases[OF assms(1), of v with_key]
  show ?thesis
  proof (intro conjI impI)
    assume "choices kw = NoChoices"
    then show "field_errors f v with_key =
              (if outside mn mx x then ([value_error with_key v], None) else ([], None))"
      using c NumberField_errors_typed[OF assms(2,3), of kw mn mx with_key]
      by (simp add: NumberField_bounds_def)
  next
    assume "choices kw \<noteq> NoChoices"
    then show "field_errors f v with_key = TypedField_errors kw ts v with_key"
      using c nn
      by (simp add: NumberField_bounds_def NumberField_errors_def out_of_bounds_def bind_err_def
          gen_then_empty_right)
  qed
qed

text \<open>
  C4, number bounds: the upper bound is not exclusive. With \<open>max = 1000\<close> the
  value 1000 passes without an error, because the check is \<open>value > self.max\<close>
  where the docstring says exclusive.
\<close>

theorem number_accepts_value_at_max:
  "IntField_init (Some 0) (Some 1000) base0 = Inr (IntField base0 (Some 0) (Some 1000))
   \<and> num_of (VInt 1000) = Some 1000 \<and> (1000::rat) \<ge> 1000
   \<and> field_errors (IntField base0 (Some 0) (Some 1000)) (VInt 1000) (Some ''copies'') = ([], None)"
  by (simp add: IntField_init_def TypedField_init_def Field_init_def bind_err_def
        NumberField_bounds_def base0_def NumberField_errors_def TypedField_errors_def
        Field_errors_def out_of_bounds_def py_lt_num_def py_gt_num_def isinstance_def
        gen_then_def gen_empty_def)

section \<open>Properties of construction\<close>

lemma reverse_choices_error:
  "fold_err (\<lambda>(k, v) r. if hashable v then Inr (adict_set r v k) else Inl TypeError) c acc = Inl e
   \<Longrightarrow> e = TypeError"
  by (induction c arbitrary: acc) (auto split: if_splits sum.splits)

text \<open>
  C3, choices given as a dict: construction never succeeds. Whatever the
  mapping, bijective or not, \<open>Field.__init__\<close> ends in a TypeError: the
  uniqueness check takes \<open>len\<close> of a bool.
\<close>

theorem dict_choices_always_raise:
  "choices kw = ChoiceDict c \<Longrightarrow> Field_init kw = Inl TypeError"
  by (cases "reverse_choices c")
     (auto simp: Field_init_def bind_err_def reverse_choices_def dest: reverse_choices_error)

theorem dict_choices_always_raise_witness:
  "choices (base0\<lparr>choices := ChoiceDict [(VStr ''a'', VInt 1), (VStr ''b'', VInt 2)]\<rparr>)
     = ChoiceDict [(VStr ''a'', VInt 1), (VStr ''b'', VInt 2)]
   \<and> Field_init (base0\<lparr>choices := ChoiceDict [(VStr ''a'', VInt 1), (VStr ''b'', VInt 2)]\<rparr>)
     = Inl TypeError"
  using dict_choices_always_raise
    [of "base0\<lparr>choices := ChoiceDict [(VStr ''a'', VInt 1), (VStr ''b'', VInt 2)]\<rparr>"
        "[(VStr ''a'', VInt 1), (VStr ''b'', VInt 2)]"]
  by (simp add: base0_def)

section \<open>Properties of merge-update\<close>

text \<open>
  C6, a polymorphic slot patched with \<open>None\<close>: the slot is not replaced. The
  whole body of \<open>VariableDefinedDictField.update\<close> is under
  \<open>isinstance(value, dict)\<close>, so the branch that would store \<open>None\<close> is never
  reached and the document stays as it was.
\<close>

theorem vdd_update_none_is_noop:
  "field_update (VariableDefinedDictField b check_field models) document key VNone
   = (document, None)"
  by simp


text \<open>
  C10, update on the merge path with a tag the model map does not resolve: for
  an existing sub-document and a dict patch whose tags are equal or one of them
  \<open>None\<close>, when the selecting tag \<open>doc_type or value_type\<close> selects no model,
  update raises and leaves the whole document unchanged; the exception is a
  ValueError for a hashable tag and the TypeError of the lookup for a list or
  dict tag.
\<close>

theorem vdd_update_unknown_tag:
  assumes "py_get document key = Inr (VDict doc)"
    and "doc_type = dict_get doc check_field" and "value_type = dict_get nv check_field"
    and "doc_type = VNone \<or> value_type = VNone \<or> py_eq doc_type value_type"
    and "\<forall>m. models_get models (py_or doc_type value_type) \<noteq> Inr (Some m)"
  shows "field_update (VariableDefinedDictField b check_field models) document key (VDict nv)
         = (document, Some (if hashable (py_or doc_type value_type) then ValueError else TypeError))"
proof (cases "models_get models (py_or doc_type value_type)")
  case (Inl e)
  then have "\<not> hashable (py_or doc_type value_type)" "e = TypeError"
    by (auto simp: models_get_def split: if_splits)
  then show ?thesis using assms Inl by (auto simp: Let_def)
next
  case (Inr r)
  then have "r = None" "hashable (py_or doc_type value_type)"
    using assms(5) by (cases r; auto simp: models_get_def split: if_splits)+
  then show ?thesis using assms Inr by (auto simp: Let_def)
qed

theorem vdd_update_unknown_tag_witness:
  "field_update product_info
     (VDict [(''product_info'', VDict [(''type'', VStr ''stapler''), (''id'', VStr ''1'')])])
     ''product_info'' (VDict [(''type'', VStr ''stapler'')])
   = (VDict [(''product_info'', VDict [(''type'', VStr ''stapler''), (''id'', VStr ''1'')])],
      Some ValueError)"
  using vdd_update_unknown_tag
    [of "VDict [(''product_info'', VDict [(''type'', VStr ''stapler''), (''id'', VStr ''1'')])]"
        "''product_info''" "[(''type'', VStr ''stapler''), (''id'', VStr ''1'')]"
        "VStr ''stapler''" "''type''" "VStr ''stapler''" "[(''type'', VStr ''stapler'')]"
        "[(VStr ''book'', Book), (VStr ''pen'', Pen)]" base0]
  by (simp add: product_info_def dict_get_def models_get_def py_or_def)

text \<open>
  The claim as stated promises a ValueError for every tag that is not a key of
  the model map; a list tag is no key of any dict, and the lookup raises
  TypeError.
\<close>

theorem vdd_update_unhashable_tag_counterexample:
  "field_update product_info
     (VDict [(''product_info'', VDict [(''type'', VList [VStr ''x''])])])
     ''product_info'' (VDict [(''type'', VList [VStr ''x''])])
   = (VDict [(''product_info'', VDict [(''type'', VList [VStr ''x''])])], Some TypeError)"
  by (simp add: product_info_def dict_get_def models_get_def py_or_def)



section \<open>The effect of clean on one slot\<close>

text \<open>
  On a dict, \<open>clean\<close> of a field reads and writes the slot of its key only. The
  functions below give, for every field class, the slot after the call from the
  slot before it (\<open>None\<close> for a missing key); \<open>field_clean_slot\<close> proves that
  \<open>field_clean\<close> is exactly that.
\<close>

lemma map_of_dict_set: "map_of (dict_set d k v) k' = (if k' = k then Some v else map_of d k')"
  by (induction d) auto

lemma dict_set_twice: "dict_set (dict_set d k a) k b = dict_set d k b"
  by (induction d) auto

lemma dict_set_same: "map_of d k = Some v \<Longrightarrow> dict_set d k v = d"
  by (induction d) (auto split: if_splits)

lemma keys_dict_set: "set (map fst (dict_set d k v)) = insert k (set (map fst d))"
  by (induction d) force+

lemma contains_map_of: "(k \<in> set (dict_keys d)) = (map_of d k \<noteq> None)"
  by (simp add: dict_keys_def map_of_eq_None_iff)

lemma dict_get_dict_set: "dict_get (dict_set d k v) k = v"
  by (simp add: dict_get_def map_of_dict_set)

lemma contains_dict_set: "k \<in> set (dict_keys (dict_set d k v))"
  by (simp add: contains_map_of map_of_dict_set)

lemma absent_get: "map_of d k = None \<Longrightarrow> dict_get d k = VNone"
  by (simp add: dict_get_def)

lemma absent_keys: "map_of d k = None \<Longrightarrow> k \<notin> set (dict_keys d)"
  by (simp add: contains_map_of)

definition opt_val :: "pyval option \<Rightarrow> pyval" where
  "opt_val s = (case s of None \<Rightarrow> VNone | Some v \<Rightarrow> v)"

definition put_slot :: "(string \<times> pyval) list \<Rightarrow> string \<Rightarrow> pyval option \<Rightarrow> pyval" where
  "put_slot d key s = (case s of None \<Rightarrow> VDict d | Some v \<Rightarrow> VDict (dict_set d key v))"

definition with_slot ::
  "(string \<times> pyval) list \<Rightarrow> string \<Rightarrow> pyerror + pyval option \<Rightarrow> pyerror + pyval" where
  "with_slot d key r = (case r of Inl e \<Rightarrow> Inl e | Inr s \<Rightarrow> Inr (put_slot d key s))"

definition Field_slot :: "base \<Rightarrow> pyval option \<Rightarrow> bool \<Rightarrow> pyval option" where
  "Field_slot b cur set_default =
     (if fixed_value b \<noteq> VNone then Some (fixed_value b)
      else case cur of
             Some v \<Rightarrow> Some v
           | None \<Rightarrow> if set_default then Some (Field_make_default b) else None)"

definition DateTime_slot :: "base \<Rightarrow> rat \<Rightarrow> pyval option \<Rightarrow> bool \<Rightarrow> pyerror + pyval option" where
  "DateTime_slot b precision cur set_default =
     (case Field_slot b cur set_default of
        None \<Rightarrow> Inl KeyError
      | Some v \<Rightarrow>
          (case v of
             VInt i \<Rightarrow> bind_err (int_to_datetime i precision) (\<lambda>dt. Inr (Some dt))
           | VBool t \<Rightarrow>
               bind_err (int_to_datetime (if t then 1 else 0) precision) (\<lambda>dt. Inr (Some dt))
           | _ \<Rightarrow> Inr (Some v)))"

definition List_slot ::
  "base \<Rightarrow> field option \<Rightarrow> bool \<Rightarrow> bool \<Rightarrow> pyval option \<Rightarrow> bool \<Rightarrow> bool
   \<Rightarrow> pyerror + pyval option" where
  "List_slot b inner_type ensure_list remove_none_value cur set_default remove_undefined =
     (let s1 = Field_slot b cur set_default;
          s2 = (if ensure_list \<and> opt_val s1 = VNone then Some (VList []) else s1);
          s3 = (if remove_none_value then
                  (case opt_val s2 of
                     VList xs \<Rightarrow> Some (VList (filter (\<lambda>item. item \<noteq> VNone) xs))
                   | _ \<Rightarrow> s2)
                else s2)
      in case inner_type of
           None \<Rightarrow> Inr s3
         | Some inner \<Rightarrow>
             if truthy (opt_val s3) then
               (case inner of
                  DefinedDictField ib m \<Rightarrow>
                    bind_err (py_iter (opt_val s3)) (\<lambda>items.
                    bind_err (map_err (\<lambda>item. clean_document m item set_default remove_undefined)
                                items) (\<lambda>items'.
                    Inr (case opt_val s3 of VList _ \<Rightarrow> Some (VList items') | _ \<Rightarrow> s3)))
                | _ \<Rightarrow> Inr s3)
             else Inr s3)"

definition Map_slot ::
  "base \<Rightarrow> field \<Rightarrow> bool \<Rightarrow> bool \<Rightarrow> pyval option \<Rightarrow> bool \<Rightarrow> bool
   \<Rightarrow> pyerror + pyval option" where
  "Map_slot b inner ensure_dict remove_none_value cur set_default remove_undefined =
     (let s1 = Field_slot b cur set_default;
          s2 = (if ensure_dict \<and> opt_val s1 = VNone then Some (VDict []) else s1);
          v = opt_val s2
      in if v \<noteq> VNone then
           bind_err (if remove_none_value then
                       bind_err (py_items v) (\<lambda>items.
                       Inr (VDict (filter (\<lambda>(k, x). x \<noteq> VNone) items)))
                     else Inr v) (\<lambda>v1.
           bind_err (py_items v1) (\<lambda>items.
           bind_err (fold_err (\<lambda>(k, _) mp. field_clean inner mp k set_default remove_undefined)
                       items v1) (\<lambda>v2.
           Inr (Some v2))))
         else Inr s2)"

definition DD_slot ::
  "base \<Rightarrow> model \<Rightarrow> pyval option \<Rightarrow> bool \<Rightarrow> bool \<Rightarrow> pyerror + pyval option" where
  "DD_slot b m cur set_default remove_undefined =
     (let s1 = (case cur of
                  Some v \<Rightarrow> Some v
                | None \<Rightarrow> if set_default then Some (field_make_default (DefinedDictField b m))
                          else None)
      in if opt_val s1 \<noteq> VNone then
           bind_err (clean_document m (opt_val s1) set_default remove_undefined) (\<lambda>v'.
           Inr (Some v'))
         else Inr s1)"

definition VDD_slot ::
  "string \<Rightarrow> (pyval \<times> model) list \<Rightarrow> pyval option \<Rightarrow> bool \<Rightarrow> bool \<Rightarrow> pyerror + pyval option" where
  "VDD_slot check_field models cur set_default remove_undefined =
     (let s1 = (case cur of
                  Some v \<Rightarrow> Some v
                | None \<Rightarrow> if set_default then Some VNone else None)
      in if opt_val s1 \<noteq> VNone then
           bind_err (get_model check_field models (opt_val s1)) (\<lambda>model.
           case model of
             None \<Rightarrow> Inl AttributeError
           | Some m \<Rightarrow>
               bind_err (clean_document m (opt_val s1) set_default remove_undefined) (\<lambda>v'.
               Inr (Some v')))
         else Inr s1)"

fun field_slot :: "field \<Rightarrow> pyval option \<Rightarrow> bool \<Rightarrow> bool \<Rightarrow> pyerror + pyval option" where
  "field_slot (ListField b i e r) cur sd ru = List_slot b i e r cur sd ru"
| "field_slot (DateTimeField b p) cur sd ru = DateTime_slot b p cur sd"
| "field_slot (MapField b i e r) cur sd ru = Map_slot b i e r cur sd ru"
| "field_slot (DefinedDictField b m) cur sd ru = DD_slot b m cur sd ru"
| "field_slot (VariableDefinedDictField b c ms) cur sd ru = VDD_slot c ms cur sd ru"
| "field_slot f cur sd ru = Inr (Field_slot (base_of f) cur sd)"

lemma put_slot_cur: "put_slot d key (map_of d key) = VDict d"
  by (auto simp: put_slot_def dict_set_same split: option.splits)

lemma Field_clean_slot:
  "Field_clean b (VDict d) key sd = Inr (put_slot d key (Field_slot b (map_of d key) sd))"
  by (cases "map_of d key")
     (auto simp: Field_clean_def Field_slot_def bind_err_def put_slot_def contains_map_of
        map_of_dict_set dict_set_same)

lemma Field_slot_None: "Field_slot b cur sd = None \<Longrightarrow> cur = None"
  by (auto simp: Field_slot_def split: if_splits option.splits)

lemma get_put_slot:
  "(s = None \<Longrightarrow> map_of d key = None) \<Longrightarrow> py_get (put_slot d key s) key = Inr (opt_val s)"
  by (cases s) (auto simp: put_slot_def opt_val_def dict_get_dict_set absent_get)

lemma getitem_put_slot:
  "(s = None \<Longrightarrow> map_of d key = None) \<Longrightarrow>
   py_getitem (put_slot d key s) key = (case s of None \<Rightarrow> Inl KeyError | Some v \<Rightarrow> Inr v)"
  by (cases s) (auto simp: put_slot_def map_of_dict_set)

lemma setitem_put_slot:
  "py_setitem (put_slot d key s) key v = Inr (put_slot d key (Some v))"
  by (cases s) (auto simp: put_slot_def dict_set_twice)

lemma setitem_put_slot_eta:
  "py_setitem (put_slot d key s) key = (\<lambda>v. Inr (put_slot d key (Some v)))"
  by (rule ext) (rule setitem_put_slot)

lemma contains_put_slot:
  "(s = None \<Longrightarrow> map_of d key = None) \<Longrightarrow>
   py_contains (put_slot d key s) key = Inr (s \<noteq> None)"
  by (cases s) (auto simp: put_slot_def contains_dict_set absent_keys)

lemma DateTime_clean_slot:
  "DateTimeField_clean b p (VDict d) key sd = with_slot d key (DateTime_slot b p (map_of d key) sd)"
proof -
  let ?s = "Field_slot b (map_of d key) sd"
  have g: "py_getitem (put_slot d key ?s) key = (case ?s of None \<Rightarrow> Inl KeyError | Some v \<Rightarrow> Inr v)"
    by (rule getitem_put_slot) (erule Field_slot_None)
  show ?thesis
    by (auto simp: DateTimeField_clean_def DateTime_slot_def Field_clean_slot g with_slot_def
        bind_err_def setitem_put_slot split: option.splits pyval.splits sum.splits)
qed


lemma bind_err_Inr [simp]: "bind_err (Inr x) f = f x"
  by (simp add: bind_err_def)

lemma bind_err_Inl [simp]: "bind_err (Inl e) f = Inl e"
  by (simp add: bind_err_def)

lemma with_slot_simps [simp]:
  "with_slot d key (Inl e) = Inl e"
  "with_slot d key (Inr s) = Inr (put_slot d key s)"
  by (simp_all add: with_slot_def)

declare clean_document.simps [simp del]
declare model_update.simps [simp del]
declare model_make_default.simps [simp del]

lemma setitem_eta: "py_setitem (VDict d) k = (\<lambda>v. Inr (VDict (dict_set d k v)))"
  by (rule ext) simp

lemma with_slot_bind:
  "with_slot d key (bind_err m f) = bind_err m (\<lambda>x. with_slot d key (f x))"
  by (cases m) simp_all

lemma List_clean_slot:
  "field_clean (ListField b inner_type el rn) (VDict d) key sd ru
   = with_slot d key (List_slot b inner_type el rn (map_of d key) sd ru)"
proof -
  define s1 where "s1 = Field_slot b (map_of d key) sd"
  define s2 where "s2 = (if el \<and> opt_val s1 = VNone then Some (VList []) else s1)"
  define s3 where "s3 = (if rn then
                  (case opt_val s2 of
                     VList xs \<Rightarrow> Some (VList (filter (\<lambda>item. item \<noteq> VNone) xs))
                   | _ \<Rightarrow> s2)
                else s2)"
  have n1: "s1 = None \<Longrightarrow> map_of d key = None"
    unfolding s1_def by (erule Field_slot_None)
  have n2: "s2 = None \<Longrightarrow> map_of d key = None"
    using n1 unfolding s2_def by (auto split: if_splits)
  have n3: "s3 = None \<Longrightarrow> map_of d key = None"
    using n2 unfolding s3_def by (auto split: if_splits pyval.splits)
  have e1: "Field_clean b (VDict d) key sd = Inr (put_slot d key s1)"
    by (simp add: Field_clean_slot s1_def)
  have e2: "(if el then
                 bind_err (py_get (put_slot d key s1) key) (\<lambda>v.
                 if v = VNone then py_setitem (put_slot d key s1) key (VList [])
                 else Inr (put_slot d key s1))
               else Inr (put_slot d key s1)) = Inr (put_slot d key s2)"
    by (simp add: get_put_slot[OF n1] setitem_put_slot s2_def)
  have e3: "(if rn then
                 bind_err (py_get (put_slot d key s2) key) (\<lambda>v.
                 case v of
                   VList xs \<Rightarrow> py_setitem (put_slot d key s2) key
                                (VList (filter (\<lambda>item. item \<noteq> VNone) xs))
                 | _ \<Rightarrow> Inr (put_slot d key s2))
               else Inr (put_slot d key s2)) = Inr (put_slot d key s3)"
    by (simp add: get_put_slot[OF n2] setitem_put_slot s3_def split: pyval.splits)
  have l: "List_slot b inner_type el rn (map_of d key) sd ru =
      (case inner_type of
           None \<Rightarrow> Inr s3
         | Some inner \<Rightarrow>
             if truthy (opt_val s3) then
               (case inner of
                  DefinedDictField ib m \<Rightarrow>
                    bind_err (py_iter (opt_val s3)) (\<lambda>items.
                    bind_err (map_err (\<lambda>item. clean_document m item sd ru) items) (\<lambda>items'.
                    Inr (case opt_val s3 of VList _ \<Rightarrow> Some (VList items') | _ \<Rightarrow> s3)))
                | _ \<Rightarrow> Inr s3)
             else Inr s3)"
    by (simp only: List_slot_def Let_def s1_def s2_def s3_def)
  show ?thesis
    unfolding l
    by (cases "opt_val s3")
       (simp_all add: e1 e2 e3 get_put_slot[OF n3] setitem_put_slot with_slot_bind
          split: option.splits field.splits)
qed

lemma Map_clean_slot:
  "field_clean (MapField b inner ed rn) (VDict d) key sd ru
   = with_slot d key (Map_slot b inner ed rn (map_of d key) sd ru)"
proof -
  define s1 where "s1 = Field_slot b (map_of d key) sd"
  define s2 where "s2 = (if ed \<and> opt_val s1 = VNone then Some (VDict []) else s1)"
  have n1: "s1 = None \<Longrightarrow> map_of d key = None"
    unfolding s1_def by (erule Field_slot_None)
  have n2: "s2 = None \<Longrightarrow> map_of d key = None"
    using n1 unfolding s2_def by (auto split: if_splits)
  have e1: "Field_clean b (VDict d) key sd = Inr (put_slot d key s1)"
    by (simp add: Field_clean_slot s1_def)
  have e2: "(if ed then
                 bind_err (py_get (put_slot d key s1) key) (\<lambda>v.
                 if v = VNone then py_setitem (put_slot d key s1) key (VDict [])
                 else Inr (put_slot d key s1))
               else Inr (put_slot d key s1)) = Inr (put_slot d key s2)"
    by (simp add: get_put_slot[OF n1] setitem_put_slot s2_def)
  have l: "Map_slot b inner ed rn (map_of d key) sd ru =
      (if opt_val s2 \<noteq> VNone then
           bind_err (if rn then
                       bind_err (py_items (opt_val s2)) (\<lambda>items.
                       Inr (VDict (filter (\<lambda>(k, x). x \<noteq> VNone) items)))
                     else Inr (opt_val s2)) (\<lambda>v1.
           bind_err (py_items v1) (\<lambda>items.
           bind_err (fold_err (\<lambda>(k, _) mp. field_clean inner mp k sd ru) items v1) (\<lambda>v2.
           Inr (Some v2))))
         else Inr s2)"
    by (simp only: Map_slot_def Let_def s1_def s2_def)
  show ?thesis
    unfolding l
    by (simp add: e1 e2 get_put_slot[OF n2] setitem_put_slot_eta with_slot_bind)
qed

lemma DD_clean_slot:
  "field_clean (DefinedDictField b m) (VDict d) key sd ru
   = with_slot d key (DD_slot b m (map_of d key) sd ru)"
proof (cases "map_of d key")
  case None
  then show ?thesis
    by (simp add: DD_slot_def opt_val_def contains_map_of absent_get dict_get_dict_set
        put_slot_def dict_set_twice with_slot_bind setitem_eta del: field_make_default.simps)
next
  case (Some v)
  then have g: "dict_get d key = v" by (simp add: dict_get_def)
  show ?thesis
    using Some
    by (simp add: DD_slot_def opt_val_def contains_map_of g put_slot_def dict_set_same
        with_slot_bind setitem_eta del: field_make_default.simps)
qed

lemma VDD_clean_slot:
  "field_clean (VariableDefinedDictField b c ms) (VDict d) key sd ru
   = with_slot d key (VDD_slot c ms (map_of d key) sd ru)"
proof (cases "map_of d key")
  case None
  then show ?thesis
    by (simp add: VDD_slot_def opt_val_def contains_map_of absent_get dict_get_dict_set
        put_slot_def)
next
  case (Some v)
  then have g: "dict_get d key = v" by (simp add: dict_get_def)
  show ?thesis
    using Some
    by (auto simp: VDD_slot_def opt_val_def contains_map_of g put_slot_def dict_set_same
        with_slot_bind setitem_eta split: option.splits intro!: bind_err_cong)
qed

lemma field_clean_slot:
  "field_clean f (VDict d) key sd ru = with_slot d key (field_slot f (map_of d key) sd ru)"
  by (cases f)
     (simp_all add: Field_clean_slot List_clean_slot Map_clean_slot DD_clean_slot VDD_clean_slot
        DateTime_clean_slot del: field_clean.simps(1,3,4,5))

definition is_dict :: "pyval \<Rightarrow> bool" where
  "is_dict v = (case v of VDict _ \<Rightarrow> True | _ \<Rightarrow> False)"

lemma not_dict_ops:
  assumes "\<not> is_dict doc"
  shows "py_setitem doc k v = Inl TypeError" "py_get doc k = Inl AttributeError"
    "py_getitem doc k = Inl TypeError" "py_items doc = Inl AttributeError"
  using assms by (cases doc; simp add: is_dict_def)+

lemma Field_clean_not_dict:
  "\<not> is_dict doc \<Longrightarrow> Field_clean b doc key sd = Inr r \<Longrightarrow> r = doc"
  by (auto simp: Field_clean_def not_dict_ops bind_err_def split: if_splits sum.splits)

lemma field_clean_not_dict:
  assumes "\<not> is_dict doc" "field_clean f doc key sd ru = Inr r"
  shows "r = doc"
proof (cases f)
  case (ListField b i e rn)
  show ?thesis
  proof (cases "Field_clean b doc key sd")
    case (Inl e)
    then show ?thesis using assms ListField by simp
  next
    case (Inr d1)
    then have "d1 = doc" using assms(1) by (rule Field_clean_not_dict[rotated])
    then show ?thesis
      using assms ListField Inr
      by (auto simp: not_dict_ops split: if_splits option.splits)
  qed
next
  case (MapField b i e rn)
  show ?thesis
  proof (cases "Field_clean b doc key sd")
    case (Inl e)
    then show ?thesis using assms MapField by simp
  next
    case (Inr d1)
    then have "d1 = doc" using assms(1) by (rule Field_clean_not_dict[rotated])
    then show ?thesis
      using assms MapField Inr
      by (auto simp: not_dict_ops split: if_splits)
  qed
next
  case (DateTimeField b p)
  show ?thesis
  proof (cases "Field_clean b doc key sd")
    case (Inl e)
    then show ?thesis using assms DateTimeField by (simp add: DateTimeField_clean_def)
  next
    case (Inr d1)
    then have "d1 = doc" using assms(1) by (rule Field_clean_not_dict[rotated])
    then show ?thesis
      using assms DateTimeField Inr
      by (auto simp: not_dict_ops DateTimeField_clean_def)
  qed
next
  case (DefinedDictField b m)
  then show ?thesis
    using assms
    by (cases "py_contains doc key")
       (auto simp: not_dict_ops simp del: field_make_default.simps split: if_splits)
next
  case (VariableDefinedDictField b c ms)
  then show ?thesis
    using assms
    by (cases "py_contains doc key") (auto simp: not_dict_ops split: if_splits)
qed (use assms in \<open>auto dest: Field_clean_not_dict\<close>)

text \<open>The loop of \<open>clean_document\<close> over the fields of a model.\<close>

definition clean_steps :: "model \<Rightarrow> pyval \<Rightarrow> bool \<Rightarrow> bool \<Rightarrow> pyerror + pyval" where
  "clean_steps cls document sd ru =
     fold_err (\<lambda>(key, definition) d. field_clean definition d (eff_key definition key) sd ru)
       cls document"

lemma clean_steps_Nil [simp]: "clean_steps [] doc sd ru = Inr doc"
  by (simp add: clean_steps_def)

lemma clean_steps_Cons [simp]:
  "clean_steps ((k, f) # cls) doc sd ru =
     bind_err (field_clean f doc (eff_key f k) sd ru) (\<lambda>d. clean_steps cls d sd ru)"
  by (simp add: clean_steps_def bind_err_def)

lemma clean_document_steps:
  "clean_document cls document sd ru =
     (if document = VNone then Inr document
      else bind_err (clean_steps cls document sd ru) (\<lambda>d1.
           if ru then
             bind_err (py_items d1) (\<lambda>items.
             Inr (VDict (filter (\<lambda>(k, _). k \<in> set (map fst cls)) items)))
           else Inr d1))"
  by (simp add: clean_document.simps clean_steps_def)

lemma clean_steps_not_dict:
  "\<not> is_dict doc \<Longrightarrow> clean_steps cls doc sd ru = Inr r \<Longrightarrow> r = doc"
proof (induction cls arbitrary: doc)
  case Nil
  then show ?case by simp
next
  case (Cons p cls)
  obtain k f where p: "p = (k, f)" by (cases p)
  from Cons.prems obtain d1 where
    s: "field_clean f doc (eff_key f k) sd ru = Inr d1" "clean_steps cls d1 sd ru = Inr r"
    by (auto simp: p bind_err_def split: sum.splits)
  have "d1 = doc" using field_clean_not_dict[OF Cons.prems(1) s(1)] .
  then show ?case using Cons.IH[of doc] Cons.prems(1) s(2) by simp
qed

lemma clean_document_dict_result:
  assumes "clean_document cls doc sd True = Inr r" "doc \<noteq> VNone"
  shows "is_dict doc \<and> is_dict r"
proof -
  from assms obtain d1 items where
    s: "clean_steps cls doc sd True = Inr d1" "py_items d1 = Inr items"
       "r = VDict (filter (\<lambda>(k, _). k \<in> set (map fst cls)) items)"
    by (auto simp: clean_document_steps bind_err_def split: sum.splits)
  have "is_dict doc"
  proof (rule ccontr)
    assume n: "\<not> is_dict doc"
    then have "d1 = doc" using s(1) by (rule clean_steps_not_dict)
    then show False using s(2) n by (simp add: not_dict_ops)
  qed
  then show ?thesis using s(3) by (simp add: is_dict_def)
qed

definition own_keys :: "model \<Rightarrow> bool" where
  "own_keys cls = list_all (\<lambda>(k, f). eff_key f k = k) cls"

lemma Field_slot_default_Some: "Field_slot b cur True \<noteq> None"
  by (simp add: Field_slot_def split: option.splits)

lemma DateTime_slot_Some:
  assumes "DateTime_slot b p cur sd = Inr s"
  shows "s \<noteq> None"
proof (cases "Field_slot b cur sd")
  case None
  then show ?thesis using assms by (simp add: DateTime_slot_def)
next
  case (Some v)
  have e: "DateTime_slot b p cur sd =
          (case v of
             VInt i \<Rightarrow> bind_err (int_to_datetime i p) (\<lambda>dt. Inr (Some dt))
           | VBool t \<Rightarrow>
               bind_err (int_to_datetime (if t then 1 else 0) p) (\<lambda>dt. Inr (Some dt))
           | _ \<Rightarrow> Inr (Some v))"
    by (simp add: DateTime_slot_def Some)
  from assms[unfolded e] show ?thesis
    by (cases v) (auto simp: bind_err_def split: sum.splits)
qed

lemma List_slot_default_Some:
  assumes "List_slot b i e rn cur True ru = Inr s"
  shows "s \<noteq> None"
proof -
  define s1 where "s1 = Field_slot b cur True"
  define s2 where "s2 = (if e \<and> opt_val s1 = VNone then Some (VList []) else s1)"
  define s3 where "s3 = (if rn then
                  (case opt_val s2 of
                     VList xs \<Rightarrow> Some (VList (filter (\<lambda>item. item \<noteq> VNone) xs))
                   | _ \<Rightarrow> s2)
                else s2)"
  have n1: "s1 \<noteq> None" unfolding s1_def by (rule Field_slot_default_Some)
  then have n2: "s2 \<noteq> None" unfolding s2_def by simp
  then have n3: "s3 \<noteq> None" unfolding s3_def by (simp split: pyval.splits)
  have l: "List_slot b i e rn cur True ru =
      (case i of
           None \<Rightarrow> Inr s3
         | Some inner \<Rightarrow>
             if truthy (opt_val s3) then
               (case inner of
                  DefinedDictField ib m \<Rightarrow>
                    bind_err (py_iter (opt_val s3)) (\<lambda>items.
                    bind_err (map_err (\<lambda>item. clean_document m item True ru) items) (\<lambda>items'.
                    Inr (case opt_val s3 of VList _ \<Rightarrow> Some (VList items') | _ \<Rightarrow> s3)))
                | _ \<Rightarrow> Inr s3)
             else Inr s3)"
    by (simp only: List_slot_def Let_def s1_def s2_def s3_def)
  show ?thesis
    using assms n3 unfolding l
    by (cases "opt_val s3")
       (auto simp: bind_err_def split: option.splits if_splits field.splits sum.splits)
qed

lemma Map_slot_default_Some:
  assumes "Map_slot b i e rn cur True ru = Inr s"
  shows "s \<noteq> None"
proof -
  define s1 where "s1 = Field_slot b cur True"
  define s2 where "s2 = (if e \<and> opt_val s1 = VNone then Some (VDict []) else s1)"
  have n1: "s1 \<noteq> None" unfolding s1_def by (rule Field_slot_default_Some)
  then have n2: "s2 \<noteq> None" unfolding s2_def by simp
  have l: "Map_slot b i e rn cur True ru =
      (if opt_val s2 \<noteq> VNone then
           bind_err (if rn then
                       bind_err (py_items (opt_val s2)) (\<lambda>items.
                       Inr (VDict (filter (\<lambda>(k, x). x \<noteq> VNone) items)))
                     else Inr (opt_val s2)) (\<lambda>v1.
           bind_err (py_items v1) (\<lambda>items.
           bind_err (fold_err (\<lambda>(k, _) mp. field_clean i mp k True ru) items v1) (\<lambda>v2.
           Inr (Some v2))))
         else Inr s2)"
    by (simp only: Map_slot_def Let_def s1_def s2_def)
  show ?thesis
    using assms n2 unfolding l
    by (auto simp: bind_err_def split: if_splits sum.splits)
qed

lemma DD_slot_default_Some: "DD_slot b m cur True ru = Inr s \<Longrightarrow> s \<noteq> None"
  by (cases cur)
     (auto simp: DD_slot_def bind_err_def Let_def simp del: field_make_default.simps
        split: if_splits sum.splits)

lemma VDD_slot_default_Some: "VDD_slot c ms cur True ru = Inr s \<Longrightarrow> s \<noteq> None"
  by (cases cur)
     (auto simp: VDD_slot_def bind_err_def Let_def split: if_splits sum.splits option.splits)

lemma field_slot_default_Some:
  assumes "field_slot f cur True ru = Inr s"
  shows "s \<noteq> None"
proof (cases f)
  case (ListField b i e rn)
  then show ?thesis using assms by (auto dest: List_slot_default_Some)
next
  case (DateTimeField b p)
  then show ?thesis using assms by (auto dest: DateTime_slot_Some)
next
  case (MapField b i e rn)
  then show ?thesis using assms by (auto dest: Map_slot_default_Some)
next
  case (DefinedDictField b m)
  then show ?thesis using assms by (auto dest: DD_slot_default_Some)
next
  case (VariableDefinedDictField b c ms)
  then show ?thesis using assms by (auto dest: VDD_slot_default_Some)
qed (use assms Field_slot_default_Some in \<open>auto simp del: not_None_eq\<close>)

lemma field_clean_keys:
  assumes "field_clean f (VDict d) key True ru = Inr r"
  shows "\<exists>v. r = VDict (dict_set d key v)"
proof -
  from assms obtain s where s: "field_slot f (map_of d key) True ru = Inr s" "r = put_slot d key s"
    by (auto simp: field_clean_slot with_slot_def split: sum.splits)
  from field_slot_default_Some[OF s(1)] obtain v where "s = Some v" by auto
  then show ?thesis using s(2) by (auto simp: put_slot_def)
qed

lemma clean_steps_keys:
  "own_keys cls \<Longrightarrow> clean_steps cls (VDict d) True ru = Inr r \<Longrightarrow>
   \<exists>d'. r = VDict d' \<and> set (map fst d') = set (map fst d) \<union> set (map fst cls)"
proof (induction cls arbitrary: d)
  case Nil
  then show ?case by auto
next
  case (Cons p cls)
  obtain k f where p: "p = (k, f)" by (cases p)
  from Cons.prems(1) have ek: "eff_key f k = k" and ok: "own_keys cls"
    by (simp_all add: own_keys_def p)
  from Cons.prems(2) obtain d1 where
    s: "field_clean f (VDict d) k True ru = Inr d1" "clean_steps cls d1 True ru = Inr r"
    by (auto simp: p ek bind_err_def split: sum.splits)
  from field_clean_keys[OF s(1)] obtain v where d1: "d1 = VDict (dict_set d k v)" by auto
  from Cons.IH[OF ok s(2)[unfolded d1]] obtain d' where
    d': "r = VDict d'" "set (map fst d') = set (map fst (dict_set d k v)) \<union> set (map fst cls)"
    by blast
  have "set (map fst d') = set (map fst d) \<union> set (map fst (p # cls))"
    unfolding d'(2) keys_dict_set p by auto
  then show ?case using d'(1) by blast
qed

lemma keys_filter:
  "set (map fst (filter (\<lambda>(k, _). k \<in> S) d)) = set (map fst d) \<inter> S"
  by (induction d) force+

lemma wf_model_own_keys: "wf_model cls \<Longrightarrow> own_keys cls"
  by (auto simp: own_keys_def list_all_iff)


lemma map_of_put_slot_other:
  "k \<noteq> key \<Longrightarrow> map_of (case put_slot d key s of VDict d' \<Rightarrow> d' | _ \<Rightarrow> []) k = map_of d k"
  by (cases s) (simp_all add: put_slot_def map_of_dict_set)

lemma put_slot_dict: "\<exists>d'. put_slot d key s = VDict d' \<and> (\<forall>k. k \<noteq> key \<longrightarrow> map_of d' k = map_of d k)
    \<and> map_of d' key = (case s of None \<Rightarrow> map_of d key | Some v \<Rightarrow> Some v)"
  by (cases s) (simp_all add: put_slot_def map_of_dict_set)

lemma field_clean_dict:
  assumes "field_clean f (VDict d) key sd ru = Inr r"
  obtains s d' where "field_slot f (map_of d key) sd ru = Inr s" "r = VDict d'"
    "\<And>k. k \<noteq> key \<Longrightarrow> map_of d' k = map_of d k"
    "map_of d' key = (case s of None \<Rightarrow> map_of d key | Some v \<Rightarrow> Some v)"
proof -
  from assms obtain s where s: "field_slot f (map_of d key) sd ru = Inr s" "r = put_slot d key s"
    by (auto simp: field_clean_slot with_slot_def split: sum.splits)
  from put_slot_dict[of d key s] s that show ?thesis by metis
qed

lemma clean_steps_untouched:
  "clean_steps cls (VDict d) sd ru = Inr r \<Longrightarrow> own_keys cls \<Longrightarrow> k \<notin> set (map fst cls) \<Longrightarrow>
   \<exists>d'. r = VDict d' \<and> map_of d' k = map_of d k"
proof (induction cls arbitrary: d)
  case Nil
  then show ?case by auto
next
  case (Cons p cls)
  obtain k0 f0 where p: "p = (k0, f0)" by (cases p)
  from Cons.prems(2) have ek: "eff_key f0 k0 = k0" and ok: "own_keys cls"
    by (simp_all add: own_keys_def p)
  from Cons.prems(3) have ne: "k \<noteq> k0" and ni: "k \<notin> set (map fst cls)" by (auto simp: p)
  from Cons.prems(1) obtain d1 where
    s: "field_clean f0 (VDict d) k0 sd ru = Inr d1" "clean_steps cls d1 sd ru = Inr r"
    by (auto simp: p ek bind_err_def split: sum.splits)
  from field_clean_dict[OF s(1)] obtain d1' where
    d1: "d1 = VDict d1'" "\<And>k. k \<noteq> k0 \<Longrightarrow> map_of d1' k = map_of d k" by metis
  from Cons.IH[OF s(2)[unfolded d1(1)] ok ni] d1(2)[OF ne] show ?case by auto
qed

lemma clean_steps_fails:
  "distinct (map fst cls) \<Longrightarrow> own_keys cls \<Longrightarrow> (k, f) \<in> set cls \<Longrightarrow>
   field_slot f (map_of d k) sd ru = Inl e \<Longrightarrow> \<exists>e'. clean_steps cls (VDict d) sd ru = Inl e'"
proof (induction cls arbitrary: d)
  case Nil
  then show ?case by simp
next
  case (Cons p cls)
  obtain k0 f0 where p: "p = (k0, f0)" by (cases p)
  from Cons.prems(2) have ek: "eff_key f0 k0 = k0" and ok: "own_keys cls"
    by (simp_all add: own_keys_def p)
  show ?case
  proof (cases "field_clean f0 (VDict d) k0 sd ru")
    case (Inl e0)
    then show ?thesis by (simp add: p ek)
  next
    case (Inr d1)
    from field_clean_dict[OF Inr] obtain s d1' where
      d1: "field_slot f0 (map_of d k0) sd ru = Inr s" "d1 = VDict d1'"
          "\<And>k. k \<noteq> k0 \<Longrightarrow> map_of d1' k = map_of d k" by metis
    have "(k, f) \<noteq> (k0, f0)" using d1(1) Cons.prems(4) by auto
    then have in': "(k, f) \<in> set cls" using Cons.prems(3) by (auto simp: p)
    then have ne: "k \<noteq> k0" using Cons.prems(1) by (force simp: p)
    from Cons.prems(1) have di: "distinct (map fst cls)" by simp
    have "field_slot f (map_of d1' k) sd ru = Inl e" using d1(3)[OF ne] Cons.prems(4) by simp
    from Cons.IH[OF di ok in' this] show ?thesis
      by (simp add: p ek Inr d1(2))
  qed
qed

lemma clean_steps_slot:
  "distinct (map fst cls) \<Longrightarrow> own_keys cls \<Longrightarrow> (k, f) \<in> set cls \<Longrightarrow>
   clean_steps cls (VDict d) True ru = Inr r \<Longrightarrow>
   \<exists>v d'. field_slot f (map_of d k) True ru = Inr (Some v) \<and> r = VDict d' \<and> map_of d' k = Some v"
proof (induction cls arbitrary: d)
  case Nil
  then show ?case by simp
next
  case (Cons p cls)
  obtain k0 f0 where p: "p = (k0, f0)" by (cases p)
  from Cons.prems(2) have ek: "eff_key f0 k0 = k0" and ok: "own_keys cls"
    by (simp_all add: own_keys_def p)
  from Cons.prems(1) have di: "distinct (map fst cls)" and ni: "k0 \<notin> set (map fst cls)"
    by (simp_all add: p)
  from Cons.prems(4) obtain d1 where
    s: "field_clean f0 (VDict d) k0 True ru = Inr d1" "clean_steps cls d1 True ru = Inr r"
    by (auto simp: p ek bind_err_def split: sum.splits)
  from field_clean_dict[OF s(1)] obtain s0 d1' where
    d1: "field_slot f0 (map_of d k0) True ru = Inr s0" "d1 = VDict d1'"
        "\<And>k. k \<noteq> k0 \<Longrightarrow> map_of d1' k = map_of d k"
        "map_of d1' k0 = (case s0 of None \<Rightarrow> map_of d k0 | Some v \<Rightarrow> Some v)" by metis
  show ?case
  proof (cases "(k, f) = (k0, f0)")
    case True
    from field_slot_default_Some[OF d1(1)] obtain v where v: "s0 = Some v" by auto
    from clean_steps_untouched[OF s(2)[unfolded d1(2)] ok ni] obtain d' where
      "r = VDict d'" "map_of d' k0 = map_of d1' k0" by auto
    then show ?thesis using True d1(1,4) v by auto
  next
    case False
    then have in': "(k, f) \<in> set cls" using Cons.prems(3) by (auto simp: p)
    then have ne: "k \<noteq> k0" using ni by force
    from Cons.IH[OF di ok in' s(2)[unfolded d1(2)]] d1(3)[OF ne] show ?thesis by simp
  qed
qed

lemma wf_model_distinct: "wf_model cls \<Longrightarrow> distinct (map fst cls)"
  by simp

lemma get_model_unresolved:
  assumes "t = dict_get sub c" "t = VNone \<or> (\<forall>m. models_get ms t \<noteq> Inr (Some m))"
  shows "get_model c ms (VDict sub)
         = (if t \<noteq> VNone \<and> \<not> hashable t then Inl TypeError else Inr None)"
proof (cases "t = VNone")
  case True
  then show ?thesis using assms(1) by (simp add: get_model_def)
next
  case False
  then have n: "\<forall>m. models_get ms t \<noteq> Inr (Some m)" using assms(2) by simp
  show ?thesis
  proof (cases "hashable t")
    case True
    then have "models_get ms t = Inr None"
      using n by (cases "find (\<lambda>(k, _). py_eq k t) ms") (auto simp: models_get_def)
    then show ?thesis using False True assms(1) by (simp add: get_model_def)
  next
    case False
    then have "models_get ms t = Inl TypeError" by (simp add: models_get_def)
    then show ?thesis using False \<open>t \<noteq> VNone\<close> assms(1) by (simp add: get_model_def)
  qed
qed

text \<open>
  C9, clean on an unresolvable discriminator: when the slot of a polymorphic
  field holds a dict whose discriminator is missing, \<open>None\<close> or no key of the
  model map, \<open>clean\<close> of the field raises (AttributeError on the \<open>None\<close>
  model, TypeError from the lookup of an unhashable tag), and so does
  \<open>clean_document\<close> of any model that declares the field, on that document.
\<close>

theorem clean_unresolvable_discriminator:
  assumes "py_get document key = Inr (VDict sub)"
    and "t = dict_get sub check_field"
    and "t = VNone \<or> (\<forall>m. models_get models t \<noteq> Inr (Some m))"
  shows "field_clean (VariableDefinedDictField b check_field models) document key sd ru
           = Inl (if t \<noteq> VNone \<and> \<not> hashable t then TypeError else AttributeError)
       \<and> (wf_model cls \<and> (key, VariableDefinedDictField b check_field models) \<in> set cls
            \<longrightarrow> (\<exists>e. clean_document cls document sd ru = Inl e))"
proof -
  from assms(1) obtain d where d: "document = VDict d" "dict_get d key = VDict sub"
    by (cases document) auto
  then have m: "map_of d key = Some (VDict sub)"
    by (auto simp: dict_get_def split: option.splits)
  have sl: "VDD_slot check_field models (Some (VDict sub)) sd ru
        = Inl (if t \<noteq> VNone \<and> \<not> hashable t then TypeError else AttributeError)"
    by (simp add: VDD_slot_def opt_val_def get_model_unresolved[OF assms(2,3)])
  have 1: "field_clean (VariableDefinedDictField b check_field models) document key sd ru
           = Inl (if t \<noteq> VNone \<and> \<not> hashable t then TypeError else AttributeError)"
    by (simp add: d(1) field_clean_slot m sl del: field_clean.simps)
  have 2: "\<exists>e. clean_document cls document sd ru = Inl e"
    if w: "wf_model cls" and i: "(key, VariableDefinedDictField b check_field models) \<in> set cls"
  proof -
    have "field_slot (VariableDefinedDictField b check_field models) (map_of d key) sd ru
          = Inl (if t \<noteq> VNone \<and> \<not> hashable t then TypeError else AttributeError)"
      by (simp add: m sl)
    from clean_steps_fails[OF wf_model_distinct[OF w] wf_model_own_keys[OF w] i this]
    show ?thesis by (auto simp: clean_document_steps d(1))
  qed
  from 1 2 show ?thesis by blast
qed

lemmas model_defs = Book_def Pen_def Product_def product_info_def DefinedDictMetaClass_init_def
  fields_update_def set_dict_key_def eff_key_def base0_def

lemma wf_Product: "wf_model Product"
  by (simp add: model_defs)

theorem clean_unresolvable_discriminator_witness:
  "py_get (VDict [(''product_info'', VDict [(''type'', VStr ''stapler'')])]) ''product_info''
     = Inr (VDict [(''type'', VStr ''stapler'')])
   \<and> field_clean product_info (VDict [(''product_info'', VDict [(''type'', VStr ''stapler'')])])
       ''product_info'' True True = Inl AttributeError
   \<and> (\<exists>e. clean_document Product
            (VDict [(''product_info'', VDict [(''type'', VStr ''stapler'')])]) True True = Inl e)"
proof -
  have i: "(''product_info'', VariableDefinedDictField (base0\<lparr>dict_key := Some ''product_info''\<rparr>)
              ''type'' [(VStr ''book'', Book), (VStr ''pen'', Pen)]) \<in> set Product"
    by (simp add: Product_def product_info_def DefinedDictMetaClass_init_def fields_update_def
        set_dict_key_def eff_key_def base0_def)
  have g: "py_get (VDict [(''product_info'', VDict [(''type'', VStr ''stapler'')])]) ''product_info''
     = Inr (VDict [(''type'', VStr ''stapler'')])"
    by (simp add: dict_get_def)
  have u: "VStr ''stapler'' = VNone
       \<or> (\<forall>m. models_get [(VStr ''book'', Book), (VStr ''pen'', Pen)] (VStr ''stapler'') \<noteq> Inr (Some m))"
    by (simp add: models_get_def)
  have t: "VStr ''stapler'' = dict_get [(''type'', VStr ''stapler'')] ''type''"
    by (simp add: dict_get_def)
  from clean_unresolvable_discriminator[OF g t u, of base0 True True Product]
       clean_unresolvable_discriminator[OF g t u, of "base0\<lparr>dict_key := Some ''product_info''\<rparr>"
          True True Product] i wf_Product g
  show ?thesis by (simp add: product_info_def del: field_clean.simps)
qed


section \<open>Merge and replace in a polymorphic slot\<close>

text \<open>The field classes whose \<open>update\<close> is \<open>Field.update\<close>, a plain overwrite.\<close>

fun overwrites :: "field \<Rightarrow> bool" where
  "overwrites (FloatField b mn mx) = False"
| "overwrites (DictField b) = False"
| "overwrites (MapField b i e r) = False"
| "overwrites (DefinedDictField b m) = False"
| "overwrites (VariableDefinedDictField b c ms) = False"
| "overwrites f = True"

fun converts :: "field \<Rightarrow> bool" where
  "converts (FloatField b mn mx) = True"
| "converts f = False"

definition touches_only :: "string \<Rightarrow> (string \<times> pyval) list \<Rightarrow> pyval \<Rightarrow> bool" where
  "touches_only key d r =
     (case r of VDict d' \<Rightarrow> (\<forall>k. k \<noteq> key \<longrightarrow> map_of d' k = map_of d k) | _ \<Rightarrow> False)"

lemma touches_only_refl: "touches_only key d (VDict d)"
  by (simp add: touches_only_def)

lemma touches_only_set: "touches_only key d (VDict (dict_set d key v))"
  by (simp add: touches_only_def map_of_dict_set)

lemma touches_only_set2: "touches_only key d (VDict (dict_set (dict_set d key v) key w))"
  by (simp add: touches_only_def map_of_dict_set)

lemma Field_update_dict:
  "Field_update (VDict d) key v = (VDict (dict_set d key v), None)"
  by (simp add: Field_update_def upd_of_def)

lemma store_back_dict:
  "store_back (VDict d) key r = (VDict (dict_set d key (fst r)), snd r)"
  by (simp add: store_back_def)

lemma FloatField_update_dict:
  "\<exists>w. FloatField_update (VDict d) key v = (VDict (dict_set d key w), None)"
  by (auto simp: FloatField_update_def Field_update_dict Let_def)

lemma field_update_local:
  "touches_only key d (fst (field_update f (VDict d) key v))"
proof (cases f)
  case (FloatField b mn mx)
  then show ?thesis
    using FloatField_update_dict[of d key v] by (auto simp: touches_only_set)
next
  case (DictField b)
  then show ?thesis
    by (auto simp: DictField_update_def upd_of_def touches_only_set touches_only_refl
        split: pyval.splits)
next
  case (MapField b i e r)
  then show ?thesis
    by (auto simp: Field_update_dict store_back_dict touches_only_set touches_only_set2
        touches_only_refl map_of_dict_set
        split: pyval.splits sum.splits option.splits prod.splits if_splits)
next
  case (DefinedDictField b m)
  then show ?thesis
    by (auto simp: Field_update_dict store_back_dict touches_only_set touches_only_refl
        split: pyval.splits)
next
  case (VariableDefinedDictField b c ms)
  then show ?thesis
    by (auto simp: Field_update_dict store_back_dict touches_only_set touches_only_refl Let_def
        split: pyval.splits sum.splits option.splits)
qed (simp_all add: Field_update_dict touches_only_set)

lemma fold_upd_steps_local:
  assumes "\<And>x d. touches_only (fst x) d (fst (f x (VDict d)))"
  shows "\<exists>d'. fst (fold_upd f xs (VDict d)) = VDict d'
          \<and> (\<forall>k. k \<notin> fst ` set xs \<longrightarrow> map_of d' k = map_of d k)"
proof (induction xs arbitrary: d)
  case Nil
  then show ?case by simp
next
  case (Cons x xs)
  from assms[of x d] obtain d1 where
    d1: "fst (f x (VDict d)) = VDict d1" "\<And>k. k \<noteq> fst x \<Longrightarrow> map_of d1 k = map_of d k"
    by (auto simp: touches_only_def split: pyval.splits)
  show ?case
  proof (cases "snd (f x (VDict d))")
    case None
    then have "fold_upd f (x # xs) (VDict d) = fold_upd f xs (VDict d1)"
      using d1(1) by (cases "f x (VDict d)") auto
    then show ?thesis using Cons.IH[of d1] d1(2) by auto
  next
    case (Some e)
    then have "fold_upd f (x # xs) (VDict d) = (VDict d1, Some e)"
      using d1(1) by (cases "f x (VDict d)") auto
    then show ?thesis using d1(2) by auto
  qed
qed

definition update_step :: "model \<Rightarrow> string \<times> pyval \<Rightarrow> pyval \<Rightarrow> upd" where
  "update_step cls = (\<lambda>(key, v) d.
            case map_of cls key of
              None \<Rightarrow> (d, None)
            | Some definition \<Rightarrow> field_update definition d key v)"

lemma model_update_dict:
  "model_update cls document (VDict nv) = fold_upd (update_step cls) nv document"
  by (simp add: update_step_def model_update.simps)

lemma update_step_local: "touches_only (fst x) d (fst (update_step cls x (VDict d)))"
  by (cases x) (auto simp: update_step_def touches_only_refl field_update_local
      simp del: field_update.simps split: option.splits)

lemma model_update_preserves:
  "\<exists>d'. fst (model_update cls (VDict d) (VDict nv)) = VDict d'
        \<and> (\<forall>k. k \<notin> set (dict_keys nv) \<longrightarrow> map_of d' k = map_of d k)"
  unfolding model_update_dict dict_keys_def
  using fold_upd_steps_local[of "update_step cls" nv d, OF update_step_local] by simp

lemma fold_upd_total:
  assumes "\<And>x d. x \<in> set xs \<Longrightarrow> \<exists>d'. f x (VDict d) = (VDict d', None)"
  shows "\<exists>d'. fold_upd f xs (VDict d) = (VDict d', None)"
  using assms
proof (induction xs arbitrary: d)
  case Nil
  then show ?case by simp
next
  case (Cons x xs)
  from Cons.prems[of x d] obtain d1 where "f x (VDict d) = (VDict d1, None)" by auto
  then show ?case using Cons.IH[of d1] Cons.prems by auto
qed

lemma model_update_total:
  assumes "\<forall>(k, v) \<in> set nv. case map_of cls k of None \<Rightarrow> True
                                | Some fld \<Rightarrow> overwrites fld \<or> converts fld"
  shows "snd (model_update cls (VDict d) (VDict nv)) = None"
proof -
  have "\<exists>d'. update_step cls x (VDict d) = (VDict d', None)" if "x \<in> set nv" for x d
  proof -
    obtain k v where x: "x = (k, v)" by (cases x)
    show ?thesis
    proof (cases "map_of cls k")
      case None
      then show ?thesis by (simp add: x update_step_def)
    next
      case (Some fld)
      with assms that x have "overwrites fld \<or> converts fld" by auto
      then show ?thesis
        using FloatField_update_dict[of d k v]
        by (cases fld) (auto simp: x update_step_def Some Field_update_dict)
    qed
  qed
  from fold_upd_total[of nv "update_step cls" d, OF this] show ?thesis
    by (auto simp: model_update_dict)
qed

text \<open>
  What \<open>update\<close> of a field leaves under its key depends on the document only
  through what was under that key.
\<close>

definition same_slot :: "string \<Rightarrow> pyval \<Rightarrow> pyval \<Rightarrow> bool" where
  "same_slot key r1 r2 =
     (case r1 of
        VDict a \<Rightarrow> (case r2 of VDict b \<Rightarrow> map_of a key = map_of b key | _ \<Rightarrow> False)
      | _ \<Rightarrow> False)"

lemma same_slot_dict [simp]: "same_slot key (VDict a) (VDict b) = (map_of a key = map_of b key)"
  by (simp add: same_slot_def)

lemma field_update_slot:
  assumes "map_of d1 key = map_of d2 key"
  shows "same_slot key (fst (field_update f (VDict d1) key v)) (fst (field_update f (VDict d2) key v))"
proof -
  have g: "dict_get d1 key = dict_get d2 key" using assms by (simp add: dict_get_def)
  show ?thesis
  proof (cases f)
    case (FloatField b mn mx)
    then show ?thesis
      by (simp add: FloatField_update_def Field_update_dict Let_def map_of_dict_set)
  next
    case (DictField b)
    then show ?thesis using assms
      by (auto simp: DictField_update_def upd_of_def g map_of_dict_set split: pyval.splits)
  next
    case (MapField b i e r)
    then show ?thesis using assms
      by (auto simp: Field_update_dict store_back_dict g map_of_dict_set
          split: pyval.splits option.splits prod.splits)
  next
    case (DefinedDictField b m)
    then show ?thesis using assms
      by (auto simp: Field_update_dict store_back_dict g map_of_dict_set split: pyval.splits)
  next
    case (VariableDefinedDictField b c ms)
    then show ?thesis using assms
      by (auto simp: Field_update_dict store_back_dict g map_of_dict_set Let_def
          split: pyval.splits sum.splits option.splits)
  qed (simp_all add: Field_update_dict map_of_dict_set)
qed

lemma fold_upd_untouched:
  assumes "\<And>x d. touches_only (fst x) d (fst (f x (VDict d)))"
    and "\<And>x d. x \<in> set xs \<Longrightarrow> fst x = k \<Longrightarrow> fst (f x (VDict d)) = VDict d"
  shows "\<exists>d'. fst (fold_upd f xs (VDict d)) = VDict d' \<and> map_of d' k = map_of d k"
  using assms(2)
proof (induction xs arbitrary: d)
  case Nil
  then show ?case by simp
next
  case (Cons x xs)
  from assms(1)[of x d] obtain d1 where
    d1: "fst (f x (VDict d)) = VDict d1" "\<And>k. k \<noteq> fst x \<Longrightarrow> map_of d1 k = map_of d k"
    by (auto simp: touches_only_def split: pyval.splits)
  have m: "map_of d1 k = map_of d k"
  proof (cases "fst x = k")
    case True
    from Cons.prems[of x d] True d1(1) show ?thesis by simp
  next
    case False
    then show ?thesis using d1(2) by simp
  qed
  show ?case
  proof (cases "snd (f x (VDict d))")
    case None
    then have "fold_upd f (x # xs) (VDict d) = fold_upd f xs (VDict d1)"
      using d1(1) by (cases "f x (VDict d)") auto
    then show ?thesis using Cons.IH[of d1] Cons.prems m by auto
  next
    case (Some e)
    then have "fold_upd f (x # xs) (VDict d) = (VDict d1, Some e)"
      using d1(1) by (cases "f x (VDict d)") auto
    then show ?thesis using m by auto
  qed
qed

lemma fold_upd_slot:
  assumes "\<And>x d. touches_only (fst x) d (fst (f x (VDict d)))"
    and "\<And>d1 d2. map_of d1 k = map_of d2 k \<Longrightarrow>
           same_slot k (fst (f (k, v) (VDict d1))) (fst (f (k, v) (VDict d2)))"
    and "distinct (map fst xs)" "(k, v) \<in> set xs"
    and "fold_upd f xs (VDict d) = (r, None)"
  shows "same_slot k r (fst (f (k, v) (VDict d)))"
  using assms(3,4,5)
proof (induction xs arbitrary: d)
  case Nil
  then show ?case by simp
next
  case (Cons x xs)
  from assms(1)[of x d] obtain d1 where
    d1: "fst (f x (VDict d)) = VDict d1" "\<And>k. k \<noteq> fst x \<Longrightarrow> map_of d1 k = map_of d k"
    by (auto simp: touches_only_def split: pyval.splits)
  from Cons.prems(3) d1(1) have rest: "fold_upd f xs (VDict d1) = (r, None)"
    by (cases "f x (VDict d)") (auto split: option.splits)
  show ?case
  proof (cases "x = (k, v)")
    case True
    have "k \<notin> fst ` set xs" using Cons.prems(1) True by auto
    with fold_upd_steps_local[of f xs d1, OF assms(1)] rest
    obtain d' where "r = VDict d'" "map_of d' k = map_of d1 k" by auto
    then show ?thesis using d1(1) True by simp
  next
    case False
    then have mem: "(k, v) \<in> set xs" using Cons.prems(2) by auto
    then have "k \<in> fst ` set xs" by force
    then have "fst x \<noteq> k" using Cons.prems(1) by auto
    then have "map_of d1 k = map_of d k" using d1(2) by simp
    from assms(2)[OF this] Cons.IH[OF _ mem rest] Cons.prems(1)
    show ?thesis by (auto simp: same_slot_def split: pyval.splits)
  qed
qed

lemma model_update_slot:
  assumes "distinct (dict_keys nv)" "(k, v) \<in> set nv" "map_of cls k = Some fld"
    and "model_update cls (VDict d) (VDict nv) = (r, None)"
  shows "same_slot k r (fst (field_update fld (VDict d) k v))"
proof -
  have st: "update_step cls (k, v) = (\<lambda>d. field_update fld d k v)"
    using assms(3) by (simp add: update_step_def)
  have "same_slot k r (fst (update_step cls (k, v) (VDict d)))"
    using assms(1,2,4)
    by (intro fold_upd_slot[of "update_step cls" k v nv d r, OF update_step_local])
       (simp_all add: model_update_dict dict_keys_def st field_update_slot del: field_update.simps)
  then show ?thesis by (simp add: st)
qed

lemma model_update_undeclared:
  assumes "map_of cls k = None"
  shows "\<exists>d'. fst (model_update cls (VDict d) (VDict nv)) = VDict d' \<and> map_of d' k = map_of d k"
  unfolding model_update_dict
  by (rule fold_upd_untouched[OF update_step_local]) (auto simp: update_step_def assms)


lemma Book_fields:
  "Book = [(''id'', StringField (base0\<lparr>is_required := True, dict_key := Some ''id''\<rparr>)
                    (Some re_book_id)),
           (''author'', StringField (base0\<lparr>dict_key := Some ''author''\<rparr>) None),
           (''type'', StringField (base0\<lparr>fixed_value := VStr ''book'',
                                          dict_key := Some ''type''\<rparr>) None)]"
  by (simp add: Book_def DefinedDictMetaClass_init_def fields_update_def set_dict_key_def
      eff_key_def base0_def)

text \<open>
  The two updates of the test suite's \<open>product_info\<close> slot, and a slot whose
  model has a \<open>FloatField\<close>, patched with an int and with a key the model does
  not declare.
\<close>

definition item_info :: field where
  "item_info = VariableDefinedDictField base0 ''type''
     [(VStr ''item'', [(''type'', StringField base0 None),
                       (''price'', FloatField base0 None None)])]"

lemma float_of_int_2: "float_of_int 2 = Some 2"
  by code_simp





section \<open>Idempotence of clean\<close>

text \<open>
  With \<open>set_default\<close> and \<open>remove_undefined\<close> both true. A model cleans its
  fields one after the other, each under its own key, so a document is a fixed
  point of \<open>clean_document\<close> as soon as every slot is a fixed point of the
  \<open>clean\<close> of its field; and what a field's \<open>clean\<close> leaves in a slot is such a
  fixed point, by induction on the nesting of the model. Of \<open>int_to_datetime\<close>
  the proof uses only that its result is a datetime.
\<close>

text \<open>A run of \<open>clean\<close> calls, each with its own key, on one dict.\<close>

definition slot_steps :: "(string \<times> field) list \<Rightarrow> pyval \<Rightarrow> pyerror + pyval" where
  "slot_steps xs document = fold_err (\<lambda>(k, f) d. field_clean f d k True True) xs document"

lemma slot_steps_Nil [simp]: "slot_steps [] doc = Inr doc"
  by (simp add: slot_steps_def)

lemma slot_steps_Cons [simp]:
  "slot_steps ((k, f) # xs) doc = bind_err (field_clean f doc k True True) (\<lambda>d. slot_steps xs d)"
  by (simp add: slot_steps_def bind_err_def)

lemma clean_steps_slot_steps:
  "own_keys cls \<Longrightarrow> clean_steps cls doc True True = slot_steps cls doc"
proof (induction cls arbitrary: doc)
  case Nil
  then show ?case by simp
next
  case (Cons p cls)
  obtain k f where p: "p = (k, f)" by (cases p)
  from Cons.prems have ek: "eff_key f k = k" and ok: "own_keys cls"
    by (simp_all add: own_keys_def p)
  show ?case by (simp add: p ek Cons.IH[OF ok])
qed

text \<open>A slot that \<open>clean\<close> of the field leaves as it is.\<close>

definition settled :: "field \<Rightarrow> (string \<times> pyval) list \<Rightarrow> string \<Rightarrow> bool" where
  "settled f d k = (\<exists>v. map_of d k = Some v \<and> field_slot f (Some v) True True = Inr (Some v))"

definition idem_field :: "field \<Rightarrow> bool" where
  "idem_field f = (\<forall>cur v. field_slot f cur True True = Inr (Some v)
                      \<longrightarrow> field_slot f (Some v) True True = Inr (Some v))"

lemma step_result:
  assumes "field_clean f (VDict d) k True True = Inr r"
  obtains v where "field_slot f (map_of d k) True True = Inr (Some v)" "r = VDict (dict_set d k v)"
proof -
  from assms obtain s where s: "field_slot f (map_of d k) True True = Inr s" "r = put_slot d k s"
    by (auto simp: field_clean_slot with_slot_def split: sum.splits)
  from field_slot_default_Some[OF s(1)] obtain v where "s = Some v" by auto
  with s that show ?thesis by (simp add: put_slot_def)
qed

lemma settled_step:
  assumes "settled f d k"
  shows "field_clean f (VDict d) k True True = Inr (VDict d)"
proof -
  from assms obtain v where v: "map_of d k = Some v" "field_slot f (Some v) True True = Inr (Some v)"
    by (auto simp: settled_def)
  then show ?thesis
    by (simp add: field_clean_slot put_slot_def dict_set_same)
qed

lemma slot_steps_untouched:
  "slot_steps xs (VDict d) = Inr r \<Longrightarrow> k \<notin> fst ` set xs \<Longrightarrow>
   \<exists>d'. r = VDict d' \<and> map_of d' k = map_of d k"
proof (induction xs arbitrary: d)
  case Nil
  then show ?case by auto
next
  case (Cons p xs)
  obtain k0 f0 where p: "p = (k0, f0)" by (cases p)
  from Cons.prems(2) have ne: "k \<noteq> k0" and ni: "k \<notin> fst ` set xs" by (auto simp: p)
  from Cons.prems(1) obtain d1 where
    s: "field_clean f0 (VDict d) k0 True True = Inr d1" "slot_steps xs d1 = Inr r"
    by (auto simp: p bind_err_def split: sum.splits)
  from step_result[OF s(1)] obtain v where d1: "d1 = VDict (dict_set d k0 v)" by metis
  from Cons.IH[OF s(2)[unfolded d1] ni] ne show ?case by (auto simp: map_of_dict_set)
qed

lemma slot_steps_settled:
  assumes "\<forall>(k, f) \<in> set xs. \<forall>(k', f') \<in> set xs. k = k' \<longrightarrow> f = f'"
    and "\<forall>(k, f) \<in> set xs. idem_field f"
    and "slot_steps xs (VDict d) = Inr r"
  shows "\<exists>d'. r = VDict d' \<and> (\<forall>(k, f) \<in> set xs. settled f d' k)"
  using assms
proof (induction xs arbitrary: d)
  case Nil
  then show ?case by auto
next
  case (Cons p xs)
  obtain k0 f0 where p: "p = (k0, f0)" by (cases p)
  from Cons.prems(3) obtain d1 where
    s: "field_clean f0 (VDict d) k0 True True = Inr d1" "slot_steps xs d1 = Inr r"
    by (auto simp: p bind_err_def split: sum.splits)
  from step_result[OF s(1)] obtain v where
    v: "field_slot f0 (map_of d k0) True True = Inr (Some v)" "d1 = VDict (dict_set d k0 v)"
    by metis
  from Cons.prems(2) have "idem_field f0" by (simp add: p)
  with v(1) have fp: "field_slot f0 (Some v) True True = Inr (Some v)"
    by (auto simp: idem_field_def)
  have fx: "\<forall>(k, f) \<in> set xs. \<forall>(k', f') \<in> set xs. k = k' \<longrightarrow> f = f'"
    using Cons.prems(1) by auto
  have id: "\<forall>(k, f) \<in> set xs. idem_field f" using Cons.prems(2) by auto
  from Cons.IH[OF fx id s(2)[unfolded v(2)]] obtain d' where
    d': "r = VDict d'" "\<forall>(k, f) \<in> set xs. settled f d' k" by auto
  have "settled f0 d' k0"
  proof (cases "k0 \<in> fst ` set xs")
    case True
    then obtain f where kf: "(k0, f) \<in> set xs" by auto
    with Cons.prems(1) have "f = f0" by (auto simp: p)
    with d'(2) kf show ?thesis by auto
  next
    case False
    from slot_steps_untouched[OF s(2)[unfolded v(2)] False] d'(1)
    have "map_of d' k0 = Some v" by (simp add: map_of_dict_set)
    with fp show ?thesis by (auto simp: settled_def)
  qed
  with d' show ?case by (auto simp: p)
qed

lemma slot_steps_identity:
  "\<forall>(k, f) \<in> set xs. settled f d k \<Longrightarrow> slot_steps xs (VDict d) = Inr (VDict d)"
  by (induction xs) (auto simp: settled_step)

lemma map_of_filter_keys:
  "k \<in> S \<Longrightarrow> map_of (filter (\<lambda>(k, _). k \<in> S) d) k = map_of d k"
  by (induction d) auto

lemma filter_filter_same: "filter P (filter P xs) = filter P xs"
  by (induction xs) auto

lemma clean_document_idem_if:
  assumes w: "wf_model m"
    and fields: "\<forall>(k, f) \<in> set m. idem_field f"
    and c: "clean_document m doc True True = Inr r"
  shows "clean_document m r True True = Inr r"
proof (cases "doc = VNone")
  case True
  then show ?thesis using c by (auto simp: clean_document_steps)
next
  case False
  note ok = wf_model_own_keys[OF w]
  from clean_document_dict_result[OF c False] obtain d where d: "doc = VDict d"
    by (cases doc) (auto simp: is_dict_def)
  from c obtain d1 items where
    s: "clean_steps m doc True True = Inr d1" "py_items d1 = Inr items"
       "r = VDict (filter (\<lambda>(k, _). k \<in> set (map fst m)) items)"
    using False by (auto simp: clean_document_steps bind_err_def split: sum.splits)
  have fx: "\<forall>(k, f) \<in> set m. \<forall>(k', f') \<in> set m. k = k' \<longrightarrow> f = f'"
    using wf_model_distinct[OF w] by (auto dest: eq_key_imp_eq_value)
  from slot_steps_settled[OF fx fields s(1)[unfolded clean_steps_slot_steps[OF ok] d]]
  obtain d' where d': "d1 = VDict d'" "\<forall>(k, f) \<in> set m. settled f d' k" by auto
  have it: "items = d'" using s(2) d'(1) by simp
  let ?r = "filter (\<lambda>(k, _). k \<in> set (map fst m)) d'"
  have "\<forall>(k, f) \<in> set m. settled f ?r k"
  proof (clarify)
    fix k f assume kf: "(k, f) \<in> set m"
    then have "k \<in> set (map fst m)" by force
    from map_of_filter_keys[OF this, of d'] d'(2) kf show "settled f ?r k"
      by (auto simp: settled_def)
  qed
  from slot_steps_identity[OF this] have st: "clean_steps m (VDict ?r) True True = Inr (VDict ?r)"
    by (simp add: clean_steps_slot_steps[OF ok])
  show ?thesis
    unfolding s(3) it using st
    by (simp add: clean_document_steps filter_filter_same)
qed

text \<open>The field classes whose \<open>clean\<close> is \<open>Field.clean\<close>.\<close>

fun plain_clean :: "field \<Rightarrow> bool" where
  "plain_clean (ListField b i e r) = False"
| "plain_clean (DateTimeField b p) = False"
| "plain_clean (MapField b i e r) = False"
| "plain_clean (DefinedDictField b m) = False"
| "plain_clean (VariableDefinedDictField b c ms) = False"
| "plain_clean f = True"

text \<open>
  A candidate model keeps the tag that selected it: it declares the
  discriminator as a plain field under the discriminator key, with no
  \<open>fixed_value\<close> or with one that selects the same model.
\<close>

definition tag_kept :: "string \<Rightarrow> (pyval \<times> model) list \<Rightarrow> model \<Rightarrow> bool" where
  "tag_kept c ms m =
     (case map_of m c of
        None \<Rightarrow> False
      | Some fc \<Rightarrow>
          plain_clean fc \<and>
          (fixed_value (base_of fc) = VNone
           \<or> models_get ms (fixed_value (base_of fc)) = Inr (Some m)))"

text \<open>
  A default or a fixed value is stable when no clean can change it: it is not a
  list or a dict, which the document would share with the field and clean would
  change in place.
\<close>

fun immutable :: "pyval \<Rightarrow> bool" where
  "immutable (VList xs) = False"
| "immutable (VDict d) = False"
| "immutable v = True"

definition stable_base :: "base \<Rightarrow> bool" where
  "stable_base b = (immutable (fixed_value b) \<and> immutable (Field_make_default b))"

function (sequential) stable_field :: "field \<Rightarrow> bool" and stable_model :: "model \<Rightarrow> bool" where
  "stable_field (ListField b inner_type ensure_list remove_none_value) =
     (stable_base b \<and> (case inner_type of None \<Rightarrow> True | Some inner \<Rightarrow> stable_field inner))"
| "stable_field (MapField b inner ensure_dict remove_none_value) =
     (stable_base b \<and> stable_field inner)"
| "stable_field (DefinedDictField b m) = (stable_base b \<and> stable_model m)"
| "stable_field (VariableDefinedDictField b check_field models) =
     (stable_base b
      \<and> list_all (\<lambda>(t, m). stable_model m \<and> tag_kept check_field models m) models)"
| "stable_field f = stable_base (base_of f)"
| "stable_model cls = list_all (\<lambda>(k, f). stable_field f) cls"
  by pat_completeness auto

termination
  by (relation "measure (\<lambda>x. case x of
         Inl f \<Rightarrow> size f
       | Inr m \<Rightarrow> size_list (size_prod (\<lambda>_. 0) size) m)")
     (auto dest: size_model_in_models size_field_in_model)

definition idem_model :: "model \<Rightarrow> bool" where
  "idem_model m = (\<forall>doc r. clean_document m doc True True = Inr r
                      \<longrightarrow> clean_document m r True True = Inr r)"

lemma plain_clean_slot:
  "plain_clean f \<Longrightarrow> field_slot f cur sd ru = Inr (Field_slot (base_of f) cur sd)"
  by (cases f) simp_all

lemma Field_slot_fixed:
  "fixed_value b \<noteq> VNone \<Longrightarrow> Field_slot b cur sd = Some (fixed_value b)"
  by (simp add: Field_slot_def)

lemma Field_slot_present:
  "fixed_value b = VNone \<Longrightarrow> Field_slot b (Some x) sd = Some x"
  by (simp add: Field_slot_def)

lemma Field_slot_idem:
  "Field_slot b cur True = Some v \<Longrightarrow> Field_slot b (Some v) True = Some v"
  by (auto simp: Field_slot_def split: if_splits option.splits)

lemma idem_plain: "plain_clean f \<Longrightarrow> idem_field f"
  by (auto simp: idem_field_def plain_clean_slot dest: Field_slot_idem)

lemma int_to_datetime_result:
  "int_to_datetime i p = Inr dt \<Longrightarrow> \<exists>s u. dt = VDateTime s u"
  by (auto simp: int_to_datetime_def Let_def split: if_splits)

definition DateTime_pipe :: "rat \<Rightarrow> pyval \<Rightarrow> pyerror + pyval option" where
  "DateTime_pipe precision v =
          (case v of
             VInt i \<Rightarrow> bind_err (int_to_datetime i precision) (\<lambda>dt. Inr (Some dt))
           | VBool t \<Rightarrow>
               bind_err (int_to_datetime (if t then 1 else 0) precision) (\<lambda>dt. Inr (Some dt))
           | _ \<Rightarrow> Inr (Some v))"

lemma DateTime_slot_pipe:
  "Field_slot b cur sd = Some y \<Longrightarrow> DateTime_slot b p cur sd = DateTime_pipe p y"
  by (simp add: DateTime_slot_def DateTime_pipe_def)

lemma DateTime_pipe_idem:
  assumes "DateTime_pipe p y = Inr (Some v)"
  shows "DateTime_pipe p v = Inr (Some v)"
  using assms
  by (cases y) (auto simp: DateTime_pipe_def bind_err_def split: sum.splits
                     dest!: int_to_datetime_result)

lemma Field_slot_True: "\<exists>y. Field_slot b cur True = Some y"
  using Field_slot_default_Some[of b cur] by auto

lemma idem_DateTime: "idem_field (DateTimeField b p)"
  unfolding idem_field_def
proof (intro allI impI)
  fix cur v
  assume a: "field_slot (DateTimeField b p) cur True True = Inr (Some v)"
  obtain y where y: "Field_slot b cur True = Some y" using Field_slot_True by blast
  show "field_slot (DateTimeField b p) (Some v) True True = Inr (Some v)"
  proof (cases "fixed_value b = VNone")
    case True
    from a y have "DateTime_pipe p y = Inr (Some v)" by (simp add: DateTime_slot_pipe)
    then have "DateTime_pipe p v = Inr (Some v)" by (rule DateTime_pipe_idem)
    then show ?thesis
      by (simp add: DateTime_slot_pipe[OF Field_slot_present[OF True]])
  next
    case False
    from a show ?thesis
      by (simp add: DateTime_slot_def Field_slot_fixed[OF False])
  qed
qed

lemma clean_document_not_None:
  "clean_document m x True True = Inr r \<Longrightarrow> x \<noteq> VNone \<Longrightarrow> is_dict r"
  using clean_document_dict_result by blast

lemma is_dict_not_None: "is_dict r \<Longrightarrow> r \<noteq> VNone"
  by (auto simp: is_dict_def)

lemma idem_DD:
  assumes "idem_model m"
  shows "idem_field (DefinedDictField b m)"
  unfolding idem_field_def
proof (intro allI impI)
  fix cur v
  assume a: "field_slot (DefinedDictField b m) cur True True = Inr (Some v)"
  show "field_slot (DefinedDictField b m) (Some v) True True = Inr (Some v)"
  proof (cases "v = VNone")
    case True
    then show ?thesis by (simp add: DD_slot_def opt_val_def)
  next
    case False
    from a obtain x where x: "x \<noteq> VNone" "clean_document m x True True = Inr v"
      using False
      by (cases cur)
         (auto simp: DD_slot_def opt_val_def Let_def bind_err_def
               simp del: field_make_default.simps split: if_splits sum.splits)
    with assms have "clean_document m v True True = Inr v" by (auto simp: idem_model_def)
    then show ?thesis using False by (simp add: DD_slot_def opt_val_def)
  qed
qed

lemma models_get_member:
  "models_get ms t = Inr (Some m) \<Longrightarrow> \<exists>k. (k, m) \<in> set ms"
proof -
  assume a: "models_get ms t = Inr (Some m)"
  then obtain k where "find (\<lambda>(k, _). py_eq k t) ms = Some (k, m)"
    by (auto simp: models_get_def split: if_splits)
  then have "(k, m) \<in> set ms" by (auto simp: find_Some_iff dest: nth_mem)
  then show ?thesis by blast
qed

lemma tag_after_clean:
  assumes w: "wf_model m" and tk: "tag_kept c ms m"
    and tg: "dict_get dx c \<noteq> VNone" "models_get ms (dict_get dx c) = Inr (Some m)"
    and c: "clean_document m (VDict dx) True True = Inr v'"
  shows "get_model c ms v' = Inr (Some m)"
proof -
  from tk obtain fc where fc: "map_of m c = Some fc" "plain_clean fc"
      "fixed_value (base_of fc) = VNone \<or> models_get ms (fixed_value (base_of fc)) = Inr (Some m)"
    by (auto simp: tag_kept_def split: option.splits)
  then have mem: "(c, fc) \<in> set m" by (auto dest: map_of_SomeD)
  from c obtain d1 items where
    s: "clean_steps m (VDict dx) True True = Inr d1" "py_items d1 = Inr items"
       "v' = VDict (filter (\<lambda>(k, _). k \<in> set (map fst m)) items)"
    by (auto simp: clean_document_steps bind_err_def split: sum.splits)
  from clean_steps_slot[OF wf_model_distinct[OF w] wf_model_own_keys[OF w] mem s(1)]
  obtain v d' where v: "field_slot fc (map_of dx c) True True = Inr (Some v)" "d1 = VDict d'"
      "map_of d' c = Some v" by auto
  from tg(1) have cur: "map_of dx c = Some (dict_get dx c)"
    by (auto simp: dict_get_def split: option.splits)
  have vv: "v = (if fixed_value (base_of fc) \<noteq> VNone then fixed_value (base_of fc)
                else dict_get dx c)"
    using v(1) by (auto simp: plain_clean_slot[OF fc(2)] cur Field_slot_def split: if_splits)
  have vn: "v \<noteq> VNone" using vv tg(1) by auto
  have mg: "models_get ms v = Inr (Some m)" using vv fc(3) tg(2) by auto
  have "c \<in> set (map fst m)" using mem by force
  from map_of_filter_keys[OF this, of d'] v(3) s(2) v(2)
  have "dict_get (filter (\<lambda>(k, _). k \<in> set (map fst m)) items) c = v"
    by (simp add: dict_get_def)
  then show ?thesis using vn mg by (simp add: s(3) get_model_def)
qed

lemma idem_VDD:
  assumes "\<forall>(t, m) \<in> set ms. idem_model m \<and> wf_model m \<and> tag_kept c ms m"
  shows "idem_field (VariableDefinedDictField b c ms)"
  unfolding idem_field_def
proof (intro allI impI)
  fix cur v
  assume a: "field_slot (VariableDefinedDictField b c ms) cur True True = Inr (Some v)"
  show "field_slot (VariableDefinedDictField b c ms) (Some v) True True = Inr (Some v)"
  proof (cases "v = VNone")
    case True
    then show ?thesis by (simp add: VDD_slot_def opt_val_def)
  next
    case False
    from a obtain x m where x: "x \<noteq> VNone" "get_model c ms x = Inr (Some m)"
        "clean_document m x True True = Inr v"
      using False
      by (cases cur)
         (auto simp: VDD_slot_def opt_val_def Let_def bind_err_def
               split: if_splits sum.splits option.splits)
    from x(2) obtain dx where dx: "x = VDict dx" "dict_get dx c \<noteq> VNone"
        "models_get ms (dict_get dx c) = Inr (Some m)"
      by (cases x) (auto simp: get_model_def bind_err_def split: if_splits)
    from models_get_member[OF dx(3)] assms have m: "idem_model m" "wf_model m" "tag_kept c ms m"
      by auto
    from tag_after_clean[OF m(2,3) dx(2,3) x(3)[unfolded dx(1)]]
    have g: "get_model c ms v = Inr (Some m)" .
    from m(1) x(3) have "clean_document m v True True = Inr v" by (auto simp: idem_model_def)
    then show ?thesis using False g by (simp add: VDD_slot_def opt_val_def)
  qed
qed

subsection \<open>Lists\<close>

definition list_norm :: "bool \<Rightarrow> bool \<Rightarrow> pyval \<Rightarrow> pyval" where
  "list_norm e rn y =
     (let a = (if e \<and> y = VNone then VList [] else y)
      in if rn then (case a of VList xs \<Rightarrow> VList (filter (\<lambda>item. item \<noteq> VNone) xs) | _ \<Rightarrow> a)
         else a)"

definition list_final :: "field option \<Rightarrow> pyval \<Rightarrow> pyerror + pyval option" where
  "list_final i n =
     (case i of
        None \<Rightarrow> Inr (Some n)
      | Some inner \<Rightarrow>
          if truthy n then
            (case inner of
               DefinedDictField ib m \<Rightarrow>
                 bind_err (py_iter n) (\<lambda>items.
                 bind_err (map_err (\<lambda>item. clean_document m item True True) items) (\<lambda>items'.
                 Inr (Some (case n of VList _ \<Rightarrow> VList items' | _ \<Rightarrow> n))))
             | _ \<Rightarrow> Inr (Some n))
          else Inr (Some n))"

lemma List_slot_pipe:
  assumes "Field_slot b cur True = Some y"
  shows "List_slot b i e rn cur True True = list_final i (list_norm e rn y)"
proof -
  define a where "a = (if e \<and> y = VNone then VList [] else y)"
  have s2: "(if e \<and> opt_val (Some y) = VNone then Some (VList []) else Some y) = Some a"
    by (simp add: a_def opt_val_def)
  have s3: "(if rn then
                  (case opt_val (Some a) of
                     VList xs \<Rightarrow> Some (VList (filter (\<lambda>item. item \<noteq> VNone) xs))
                   | _ \<Rightarrow> Some a)
                else Some a) = Some (list_norm e rn y)"
    by (cases a) (simp_all add: list_norm_def a_def[symmetric] opt_val_def Let_def)
  have 2: "(case i of
           None \<Rightarrow> Inr (Some n)
         | Some inner \<Rightarrow>
             if truthy (opt_val (Some n)) then
               (case inner of
                  DefinedDictField ib m \<Rightarrow>
                    bind_err (py_iter (opt_val (Some n))) (\<lambda>items.
                    bind_err (map_err (\<lambda>item. clean_document m item True True)
                                items) (\<lambda>items'.
                    Inr (case opt_val (Some n) of VList _ \<Rightarrow> Some (VList items')
                         | _ \<Rightarrow> Some n)))
                | _ \<Rightarrow> Inr (Some n))
             else Inr (Some n)) = list_final i n" for n
    by (cases n; cases i) (auto simp: list_final_def opt_val_def split: field.splits)
  have 1: "List_slot b i e rn cur True True =
     (case i of
           None \<Rightarrow> Inr (Some (list_norm e rn y))
         | Some inner \<Rightarrow>
             if truthy (opt_val (Some (list_norm e rn y))) then
               (case inner of
                  DefinedDictField ib m \<Rightarrow>
                    bind_err (py_iter (opt_val (Some (list_norm e rn y)))) (\<lambda>items.
                    bind_err (map_err (\<lambda>item. clean_document m item True True)
                                items) (\<lambda>items'.
                    Inr (case opt_val (Some (list_norm e rn y)) of VList _ \<Rightarrow> Some (VList items')
                         | _ \<Rightarrow> Some (list_norm e rn y))))
                | _ \<Rightarrow> Inr (Some (list_norm e rn y)))
             else Inr (Some (list_norm e rn y)))"
    by (simp only: List_slot_def Let_def assms s2 s3)
  show ?thesis unfolding 1 by (rule 2)
qed

lemma list_norm_idem: "list_norm e rn (list_norm e rn y) = list_norm e rn y"
  by (cases y) (auto simp: list_norm_def Let_def split: pyval.splits)

lemma list_norm_filtered:
  "rn \<Longrightarrow> list_norm e rn y = VList xs \<Longrightarrow> VNone \<notin> set xs"
  by (cases y) (auto simp: list_norm_def Let_def split: if_splits)

lemma list_norm_list:
  "VNone \<notin> set xs \<or> \<not> rn \<Longrightarrow> list_norm e rn (VList xs) = VList xs"
  by (auto simp: list_norm_def Let_def filter_id_conv)

lemma map_err_all2:
  "map_err f xs = Inr ys \<Longrightarrow> list_all2 (\<lambda>x y. f x = Inr y) xs ys"
  by (induction xs arbitrary: ys) (auto split: sum.splits)

lemma map_err_fixed:
  "\<forall>y \<in> set ys. f y = Inr y \<Longrightarrow> map_err f ys = Inr ys"
  by (induction ys) auto

lemma list_final_idem:
  assumes q: "\<And>ib m. i = Some (DefinedDictField ib m) \<Longrightarrow> idem_model m"
    and a: "list_final i (list_norm e rn y) = Inr (Some v)"
  shows "list_final i (list_norm e rn v) = Inr (Some v)"
proof (cases "v = list_norm e rn y")
  case True
  then show ?thesis using a by (simp add: list_norm_idem)
next
  case False
  let ?n = "list_norm e rn y"
  from a False obtain ib m where i: "i = Some (DefinedDictField ib m)" and t: "truthy ?n"
    by (auto simp: list_final_def split: option.splits if_splits field.splits)
  from a False obtain items items' where
    it: "py_iter ?n = Inr items" "map_err (\<lambda>item. clean_document m item True True) items = Inr items'"
        "v = (case ?n of VList _ \<Rightarrow> VList items' | _ \<Rightarrow> ?n)"
    using t by (auto simp: list_final_def i bind_err_def split: sum.splits)
  from it(3) False obtain xs where n: "?n = VList xs" by (cases ?n) auto
  then have xs: "items = xs" and v: "v = VList items'" using it by auto
  note a2 = map_err_all2[OF it(2)[unfolded xs]]
  have len: "length items' = length xs" using a2 by (simp add: list_all2_lengthD)
  have ne: "items' \<noteq> []" using t n len by auto
  have fixed: "\<forall>y \<in> set items'. clean_document m y True True = Inr y"
  proof
    fix y' assume "y' \<in> set items'"
    then obtain x where "clean_document m x True True = Inr y'"
      using a2 by (auto simp: list_all2_conv_all_nth in_set_conv_nth)
    with q[OF i] show "clean_document m y' True True = Inr y'" by (auto simp: idem_model_def)
  qed
  have nn: "VNone \<notin> set items'" if rn
  proof
    assume "VNone \<in> set items'"
    then obtain j where j: "j < length items'" "items' ! j = VNone"
      by (auto simp: in_set_conv_nth)
    define x where "x = xs ! j"
    have x: "x \<in> set xs" "clean_document m x True True = Inr VNone"
      using a2 j len by (auto simp: list_all2_conv_all_nth x_def)
    from list_norm_filtered[OF that n] x(1) have "x \<noteq> VNone" by auto
    from clean_document_not_None[OF x(2) this] show False by (simp add: is_dict_def)
  qed
  have "list_norm e rn v = v" unfolding v using nn by (intro list_norm_list) auto
  then show ?thesis
    using ne by (simp add: v list_final_def i map_err_fixed[OF fixed])
qed

lemma idem_List:
  assumes "\<And>ib m. i = Some (DefinedDictField ib m) \<Longrightarrow> idem_model m"
  shows "idem_field (ListField b i e rn)"
  unfolding idem_field_def
proof (intro allI impI)
  fix cur v
  assume a: "field_slot (ListField b i e rn) cur True True = Inr (Some v)"
  obtain y where y: "Field_slot b cur True = Some y" using Field_slot_True by blast
  show "field_slot (ListField b i e rn) (Some v) True True = Inr (Some v)"
  proof (cases "fixed_value b = VNone")
    case True
    from a have "list_final i (list_norm e rn y) = Inr (Some v)" by (simp add: List_slot_pipe[OF y])
    from list_final_idem[OF assms this] show ?thesis
      by (simp add: List_slot_pipe[OF Field_slot_present[OF True]])
  next
    case False
    from a show ?thesis
      by (simp add: List_slot_pipe[OF Field_slot_fixed[OF False]])
  qed
qed

subsection \<open>Maps\<close>

definition map_pipe :: "field \<Rightarrow> bool \<Rightarrow> bool \<Rightarrow> pyval \<Rightarrow> pyerror + pyval option" where
  "map_pipe inner e rn y =
     (let a = (if e \<and> y = VNone then VDict [] else y)
      in if a \<noteq> VNone then
           bind_err (if rn then
                       bind_err (py_items a) (\<lambda>items.
                       Inr (VDict (filter (\<lambda>(k, x). x \<noteq> VNone) items)))
                     else Inr a) (\<lambda>v1.
           bind_err (py_items v1) (\<lambda>items.
           bind_err (slot_steps (map (\<lambda>(k, _). (k, inner)) items) v1) (\<lambda>v2.
           Inr (Some v2))))
         else Inr (Some a))"

lemma fold_steps_map:
  "fold_err (\<lambda>(k, _) mp. field_clean inner mp k True True) items v
     = slot_steps (map (\<lambda>(k, _). (k, inner)) items) v"
  by (induction items arbitrary: v) (auto simp: slot_steps_def split: sum.splits)

lemma Map_slot_pipe:
  assumes "Field_slot b cur True = Some y"
  shows "Map_slot b inner e rn cur True True = map_pipe inner e rn y"
  by (simp add: Map_slot_def map_pipe_def Let_def opt_val_def assms fold_steps_map)

lemma slot_steps_dict:
  "slot_steps xs (VDict d) = Inr r \<Longrightarrow> is_dict r"
proof (induction xs arbitrary: d)
  case Nil
  then show ?case by (auto simp: is_dict_def)
next
  case (Cons p xs)
  obtain k0 f0 where p: "p = (k0, f0)" by (cases p)
  from Cons.prems obtain d1 where
    s: "field_clean f0 (VDict d) k0 True True = Inr d1" "slot_steps xs d1 = Inr r"
    by (auto simp: p bind_err_def split: sum.splits)
  from step_result[OF s(1)] obtain v where d1: "d1 = VDict (dict_set d k0 v)" by metis
  from Cons.IH[OF s(2)[unfolded d1]] show ?case .
qed

lemma keys_dict_set_present:
  "k \<in> fst ` set d \<Longrightarrow> map fst (dict_set d k v) = map fst d"
  by (induction d) force+

lemma set_dict_set: "set (dict_set d k v) \<subseteq> insert (k, v) (set d)"
  by (induction d) (auto split: if_splits)

lemma map_of_present:
  "k \<in> fst ` set d \<Longrightarrow> \<exists>x. map_of d k = Some x \<and> (k, x) \<in> set d"
  by (induction d) auto

text \<open>A slot that holds a value other than \<open>None\<close> still does after \<open>clean\<close>.\<close>

definition keeps_value :: "field \<Rightarrow> bool" where
  "keeps_value f = (\<forall>x v. x \<noteq> VNone \<longrightarrow> field_slot f (Some x) True True = Inr (Some v)
                       \<longrightarrow> v \<noteq> VNone)"

lemma Field_slot_Some_not_None:
  "x \<noteq> VNone \<Longrightarrow> Field_slot b (Some x) True = Some y \<Longrightarrow> y \<noteq> VNone"
  by (auto simp: Field_slot_def split: if_splits)

lemma list_norm_not_None: "y \<noteq> VNone \<Longrightarrow> list_norm e rn y \<noteq> VNone"
  by (cases y) (auto simp: list_norm_def Let_def)

lemma list_final_not_None: "n \<noteq> VNone \<Longrightarrow> list_final i n = Inr (Some v) \<Longrightarrow> v \<noteq> VNone"
  by (cases n)
     (auto simp: list_final_def bind_err_def split: option.splits if_splits field.splits sum.splits)

lemma map_pipe_not_None:
  assumes "y \<noteq> VNone" "map_pipe inner e rn y = Inr (Some v)"
  shows "v \<noteq> VNone"
proof -
  from assms obtain d xs where "slot_steps xs (VDict d) = Inr v"
    by (cases y)
       (auto simp: map_pipe_def Let_def bind_err_def split: if_splits sum.splits)
  from slot_steps_dict[OF this] show ?thesis by (auto simp: is_dict_def)
qed

lemma field_keeps_value: "keeps_value f"
  unfolding keeps_value_def
proof (intro allI impI)
  fix x v
  assume x: "x \<noteq> VNone" and a: "field_slot f (Some x) True True = Inr (Some v)"
  obtain y where y: "Field_slot (base_of f) (Some x) True = Some y" using Field_slot_True by blast
  note yn = Field_slot_Some_not_None[OF x y]
  show "v \<noteq> VNone"
  proof (cases f)
    case (ListField b i e rn)
    with a y have "list_final i (list_norm e rn y) = Inr (Some v)"
      by (simp add: List_slot_pipe)
    from list_final_not_None[OF list_norm_not_None[OF yn] this] show ?thesis .
  next
    case (DateTimeField b p)
    with a y have "DateTime_pipe p y = Inr (Some v)" by (simp add: DateTime_slot_pipe)
    then show ?thesis using yn
      by (cases y) (auto simp: DateTime_pipe_def bind_err_def split: sum.splits
                         dest!: int_to_datetime_result)
  next
    case (MapField b i e rn)
    with a y have "map_pipe i e rn y = Inr (Some v)" by (simp add: Map_slot_pipe)
    from map_pipe_not_None[OF yn this] show ?thesis .
  next
    case (DefinedDictField b m)
    with a x have "clean_document m x True True = Inr v"
      by (auto simp: DD_slot_def opt_val_def bind_err_def split: sum.splits)
    from clean_document_not_None[OF this x] show ?thesis by (auto simp: is_dict_def)
  next
    case (VariableDefinedDictField b c ms)
    with a x obtain m where "clean_document m x True True = Inr v"
      by (auto simp: VDD_slot_def opt_val_def bind_err_def split: sum.splits option.splits)
    from clean_document_not_None[OF this x] show ?thesis by (auto simp: is_dict_def)
  qed (use a y yn in auto)
qed

lemma slot_steps_values:
  assumes "slot_steps xs (VDict d) = Inr r" "\<forall>(k, x) \<in> set d. x \<noteq> VNone"
    "fst ` set xs \<subseteq> fst ` set d"
  shows "\<exists>d'. r = VDict d' \<and> (\<forall>(k, x) \<in> set d'. x \<noteq> VNone)"
  using assms
proof (induction xs arbitrary: d)
  case Nil
  then show ?case by auto
next
  case (Cons p xs)
  obtain k0 f0 where p: "p = (k0, f0)" by (cases p)
  from Cons.prems(1) obtain d1 where
    s: "field_clean f0 (VDict d) k0 True True = Inr d1" "slot_steps xs d1 = Inr r"
    by (auto simp: p bind_err_def split: sum.splits)
  from step_result[OF s(1)] obtain v where
    v: "field_slot f0 (map_of d k0) True True = Inr (Some v)" "d1 = VDict (dict_set d k0 v)"
    by metis
  from Cons.prems(3) have "k0 \<in> fst ` set d" by (auto simp: p)
  from map_of_present[OF this] obtain x where x: "map_of d k0 = Some x" "(k0, x) \<in> set d" by auto
  with Cons.prems(2) have "x \<noteq> VNone" by auto
  with field_keeps_value[of f0] v(1) x(1) have vn: "v \<noteq> VNone" by (auto simp: keeps_value_def)
  have a: "\<forall>(k, x) \<in> set (dict_set d k0 v). x \<noteq> VNone"
    using set_dict_set[of d k0 v] Cons.prems(2) vn by auto
  have "fst ` set (dict_set d k0 v) = insert k0 (fst ` set d)"
    using keys_dict_set[of d k0 v] by simp
  then have b: "fst ` set xs \<subseteq> fst ` set (dict_set d k0 v)" using Cons.prems(3) by auto
  from Cons.IH[OF s(2)[unfolded v(2)] a b] show ?case .
qed

lemma slot_steps_keys:
  assumes "slot_steps xs (VDict d) = Inr r" "fst ` set xs \<subseteq> fst ` set d"
  shows "\<exists>d'. r = VDict d' \<and> map fst d' = map fst d"
  using assms
proof (induction xs arbitrary: d)
  case Nil
  then show ?case by auto
next
  case (Cons p xs)
  obtain k0 f0 where p: "p = (k0, f0)" by (cases p)
  from Cons.prems(1) obtain d1 where
    s: "field_clean f0 (VDict d) k0 True True = Inr d1" "slot_steps xs d1 = Inr r"
    by (auto simp: p bind_err_def split: sum.splits)
  from step_result[OF s(1)] obtain v where v: "d1 = VDict (dict_set d k0 v)" by metis
  from Cons.prems(2) have k0: "k0 \<in> fst ` set d" by (auto simp: p)
  have ks: "map fst (dict_set d k0 v) = map fst d" by (rule keys_dict_set_present[OF k0])
  then have "fst ` set (dict_set d k0 v) = fst ` set d" by (metis list.set_map)
  then have b: "fst ` set xs \<subseteq> fst ` set (dict_set d k0 v)" using Cons.prems(2) by auto
  from Cons.IH[OF s(2)[unfolded v] b] ks show ?case by auto
qed

lemma map_pipe_idem:
  assumes idem: "idem_field inner"
    and a: "map_pipe inner e rn y = Inr (Some v)"
  shows "map_pipe inner e rn v = Inr (Some v)"
proof -
  define a0 where "a0 = (if e \<and> y = VNone then VDict [] else y)"
  show ?thesis
  proof (cases "a0 = VNone")
    case True
    then have "v = VNone" "\<not> e" using a by (auto simp: map_pipe_def a0_def split: if_splits)
    then show ?thesis by (simp add: map_pipe_def)
  next
    case False
    from a False obtain items where
      it: "(if rn then bind_err (py_items a0) (\<lambda>items.
                       Inr (VDict (filter (\<lambda>(k, x). x \<noteq> VNone) items)))
           else Inr a0) = Inr (VDict items)"
        "slot_steps (map (\<lambda>(k, _). (k, inner)) items) (VDict items) = Inr v"
      unfolding map_pipe_def a0_def[symmetric] Let_def
      by (auto simp: bind_err_def split: sum.splits elim!: py_items.elims)
    let ?xs = "map (\<lambda>(k, _). (k, inner)) items"
    have sub: "fst ` set ?xs \<subseteq> fst ` set items" by force
    from slot_steps_keys[OF it(2) sub] obtain d' where
      d': "v = VDict d'" "map fst d' = map fst items" by auto
    have fx: "\<forall>(k, f) \<in> set ?xs. \<forall>(k', f') \<in> set ?xs. k = k' \<longrightarrow> f = f'" by auto
    have id: "\<forall>(k, f) \<in> set ?xs. idem_field f" using idem by auto
    from slot_steps_settled[OF fx id it(2)] d'(1)
    have st: "\<forall>(k, f) \<in> set ?xs. settled f d' k" by auto
    have nn: "\<forall>(k, x) \<in> set d'. x \<noteq> VNone" if rn
    proof -
      from it(1) that have "\<forall>(k, x) \<in> set items. x \<noteq> VNone"
        by (cases a0) (auto simp: bind_err_def)
      from slot_steps_values[OF it(2) this sub] d'(1) show ?thesis by auto
    qed
    have f1: "filter (\<lambda>(k, x). x \<noteq> VNone) d' = d'" if rn
      using nn[OF that] by (auto simp: filter_id_conv)
    let ?ys = "map (\<lambda>(k, _). (k, inner)) d'"
    have "fst ` set d' = fst ` set items" using d'(2) by (metis list.set_map)
    then have "\<forall>(k, f) \<in> set ?ys. settled f d' k" using st by force
    from slot_steps_identity[OF this] have "slot_steps ?ys (VDict d') = Inr (VDict d')" .
    then show ?thesis
      using f1 by (cases rn) (simp_all add: map_pipe_def d'(1) Let_def)
  qed
qed

lemma idem_Map:
  assumes "idem_field inner"
  shows "idem_field (MapField b inner e rn)"
  unfolding idem_field_def
proof (intro allI impI)
  fix cur v
  assume a: "field_slot (MapField b inner e rn) cur True True = Inr (Some v)"
  obtain y where y: "Field_slot b cur True = Some y" using Field_slot_True by blast
  show "field_slot (MapField b inner e rn) (Some v) True True = Inr (Some v)"
  proof (cases "fixed_value b = VNone")
    case True
    from a have "map_pipe inner e rn y = Inr (Some v)" by (simp add: Map_slot_pipe[OF y])
    from map_pipe_idem[OF assms this] show ?thesis
      by (simp add: Map_slot_pipe[OF Field_slot_present[OF True]])
  next
    case False
    from a show ?thesis
      by (simp add: Map_slot_pipe[OF Field_slot_fixed[OF False]])
  qed
qed


subsection \<open>Every field and every model\<close>

lemma idem_DD_model:
  assumes "idem_field (DefinedDictField b m)"
  shows "idem_model m"
  unfolding idem_model_def
proof (intro allI impI)
  fix doc r
  assume c: "clean_document m doc True True = Inr r"
  show "clean_document m r True True = Inr r"
  proof (cases "doc = VNone")
    case True
    then show ?thesis using c by (auto simp: clean_document_steps)
  next
    case False
    from clean_document_not_None[OF c False] have r: "r \<noteq> VNone" by (auto simp: is_dict_def)
    from c False have "field_slot (DefinedDictField b m) (Some doc) True True = Inr (Some r)"
      by (simp add: DD_slot_def opt_val_def)
    with assms have "field_slot (DefinedDictField b m) (Some r) True True = Inr (Some r)"
      by (auto simp: idem_field_def)
    then show ?thesis using r
      by (auto simp: DD_slot_def opt_val_def bind_err_def split: sum.splits)
  qed
qed

lemma idem_all:
  "wf_field f \<longrightarrow> stable_field f \<longrightarrow> idem_field f"
  "wf_model m \<longrightarrow> stable_model m \<longrightarrow> idem_model m"
proof (induction f and m rule: wf_field_wf_model.induct)
  case (1 b inner_type ensure_list remove_none_value)
  show ?case
  proof (intro impI)
    assume w: "wf_field (ListField b inner_type ensure_list remove_none_value)"
      and s: "stable_field (ListField b inner_type ensure_list remove_none_value)"
    show "idem_field (ListField b inner_type ensure_list remove_none_value)"
    proof (rule idem_List)
      fix ib m assume i: "inner_type = Some (DefinedDictField ib m)"
      from 1[OF i] w s i have "idem_field (DefinedDictField ib m)" by simp
      then show "idem_model m" by (rule idem_DD_model)
    qed
  qed
next
  case (2 b inner ensure_dict remove_none_value)
  then show ?case by (auto intro: idem_Map)
next
  case (3 b m)
  then show ?case by (auto intro: idem_DD simp del: wf_model.simps stable_model.simps)
next
  case (4 b check_field models)
  show ?case
  proof (intro impI)
    assume w: "wf_field (VariableDefinedDictField b check_field models)"
      and s: "stable_field (VariableDefinedDictField b check_field models)"
    have "\<forall>(t, m) \<in> set models. idem_model m \<and> wf_model m \<and> tag_kept check_field models m"
    proof (clarify)
      fix t m assume mem: "(t, m) \<in> set models"
      from w mem have wm: "wf_model m"
        by (auto simp: list_all_iff simp del: wf_model.simps)
      from s mem have sm: "stable_model m" "tag_kept check_field models m"
        by (auto simp: list_all_iff simp del: stable_model.simps)
      from 4[OF mem refl] wm sm(1) have "idem_model m" by simp
      with wm sm(2) show "idem_model m \<and> wf_model m \<and> tag_kept check_field models m" by simp
    qed
    then show "idem_field (VariableDefinedDictField b check_field models)" by (rule idem_VDD)
  qed
next
  case (6 cls)
  show ?case
  proof (intro impI)
    assume w: "wf_model cls" and s: "stable_model cls"
    have "\<forall>(k, f) \<in> set cls. idem_field f"
    proof (clarify)
      fix k f assume mem: "(k, f) \<in> set cls"
      from w mem have "wf_field f" by (auto simp: list_all_iff)
      moreover from s mem have "stable_field f" by (auto simp: list_all_iff)
      ultimately show "idem_field f" using 6[OF mem refl] by simp
    qed
    with w show "idem_model cls"
      unfolding idem_model_def by (auto intro: clean_document_idem_if)
  qed
qed (simp_all add: idem_plain idem_DateTime)


lemma stable_Product: "stable_model Product"
  by (simp add: model_defs stable_base_def tag_kept_def models_get_def Field_make_default_def)

text \<open>
  A model with a list of strings, a list of sub-documents, a map of floats and a
  datetime.
\<close>

definition Shelf :: model where
  "Shelf = DefinedDictMetaClass_init []
     [(''tags'', ListField base0 None True True),
      (''books'', ListField base0 (Some (DefinedDictField base0 Book)) True True),
      (''prices'', MapField base0 (FloatField base0 None None) True True),
      (''at'', DateTimeField base0 1000000)]"

lemma wf_stable_Shelf: "wf_model Shelf \<and> stable_model Shelf"
  by (simp add: Shelf_def model_defs stable_base_def Field_make_default_def Book_fields)


text \<open>
  Two candidate models of one polymorphic field, the first of which fixes the
  discriminator to the tag of the second: the first clean runs the first
  model, the second clean the second, and the results differ.
\<close>

definition Flip_a :: model where
  "Flip_a = DefinedDictMetaClass_init []
     [(''type'', StringField (base0\<lparr>fixed_value := VStr ''b''\<rparr>) None),
      (''x'', StringField base0 None)]"

definition Flip_b :: model where
  "Flip_b = DefinedDictMetaClass_init []
     [(''type'', StringField (base0\<lparr>fixed_value := VStr ''b''\<rparr>) None),
      (''y'', StringField base0 None)]"

definition Flip :: model where
  "Flip = DefinedDictMetaClass_init []
     [(''info'', VariableDefinedDictField base0 ''type''
         [(VStr ''a'', Flip_a), (VStr ''b'', Flip_b)])]"


end
